theory Spec2Isabelle
  imports Main
begin

chapter \<open>The model\<close>

section \<open>JavaScript strings\<close>

text \<open>
  Strings are lists of code units. The model keeps the code units below 256, so the
  white space of \<^verbatim>\<open>String.prototype.trim\<close> and of the regular expression class
  \<^verbatim>\<open>\s\<close> is TAB, LF, VT, FF, CR, SPACE and NBSP, and the line terminators that
  \<^verbatim>\<open>.\<close> refuses to match are LF and CR.
\<close>

definition js_space :: "char \<Rightarrow> bool" where
  "js_space c = ((of_char c :: nat) \<in> {9, 10, 11, 12, 13, 32, 160})"

definition line_terminator :: "char \<Rightarrow> bool" where
  "line_terminator c = ((of_char c :: nat) \<in> {10, 13})"

definition js_trim :: "string \<Rightarrow> string" where
  "js_trim s = rev (dropWhile js_space (rev (dropWhile js_space s)))"

definition starts_with :: "string \<Rightarrow> string \<Rightarrow> bool" where
  "starts_with p s = (take (length p) s = p)"

definition ends_with :: "string \<Rightarrow> string \<Rightarrow> bool" where
  "ends_with p s = (length p \<le> length s \<and> drop (length s - length p) s = p)"

definition strip_prefix :: "string \<Rightarrow> string \<Rightarrow> string option" where
  "strip_prefix p s = (if starts_with p s then Some (drop (length p) s) else None)"

text \<open>\<^verbatim>\<open>(.+)$\<close>: one or more code units, none of them a line terminator, up to the end.\<close>

definition dot_plus :: "string \<Rightarrow> bool" where
  "dot_plus s = (s \<noteq> [] \<and> (\<forall>c \<in> set s. \<not> line_terminator c))"

section \<open>Git utilities: URL normalisation\<close>

text \<open>\<^verbatim>\<open>path.replace(/\.git$/, '')\<close>\<close>

definition strip_git_suffix :: "string \<Rightarrow> string" where
  "strip_git_suffix p = (if ends_with ''.git'' p then take (length p - 4) p else p)"

text \<open>
  \<^verbatim>\<open>/^git@([^:]+):(.+)$/\<close>: the host is the longest run without a colon after
  \<^verbatim>\<open>git@\<close>; it must be followed by a colon and by a non-empty rest on one line.
\<close>

definition sshMatch :: "string \<Rightarrow> (string \<times> string) option" where
  "sshMatch s =
     (case strip_prefix ''git@'' s of
        None \<Rightarrow> None
      | Some r \<Rightarrow>
          (let host = takeWhile (\<lambda>c. c \<noteq> CHR '':'') r;
               rest = dropWhile (\<lambda>c. c \<noteq> CHR '':'') r
           in if host \<noteq> [] \<and> rest \<noteq> [] \<and> dot_plus (tl rest) then Some (host, tl rest) else None))"

text \<open>\<^verbatim>\<open>(?:ssh|https?|git):\/\/\<close>: the text after the scheme, when there is one.\<close>

definition after_scheme :: "string \<Rightarrow> string option" where
  "after_scheme s =
     (case strip_prefix ''ssh://'' s of Some r \<Rightarrow> Some r | None \<Rightarrow>
      (case strip_prefix ''https://'' s of Some r \<Rightarrow> Some r | None \<Rightarrow>
       (case strip_prefix ''http://'' s of Some r \<Rightarrow> Some r | None \<Rightarrow>
        strip_prefix ''git://'' s)))"

text \<open>\<^verbatim>\<open>([^/]+)\/(.+)$\<close>\<close>

definition host_and_path :: "string \<Rightarrow> (string \<times> string) option" where
  "host_and_path r =
     (let host = takeWhile (\<lambda>c. c \<noteq> CHR ''/'') r;
          rest = dropWhile (\<lambda>c. c \<noteq> CHR ''/'') r
      in if host \<noteq> [] \<and> rest \<noteq> [] \<and> dot_plus (tl rest) then Some (host, tl rest) else None)"

text \<open>
  \<^verbatim>\<open>(?:[^@]+@)?([^/]+)\/(.+)$\<close>: the optional group is tried first (a non-empty
  run up to the first \<^verbatim>\<open>@\<close>); when the rest does not match after it, the matcher
  backtracks and tries without the group.
\<close>

definition authority_and_path :: "string \<Rightarrow> (string \<times> string) option" where
  "authority_and_path r =
     (let u = takeWhile (\<lambda>c. c \<noteq> CHR ''@'') r;
          v = dropWhile (\<lambda>c. c \<noteq> CHR ''@'') r
      in if u \<noteq> [] \<and> v \<noteq> [] then
           (case host_and_path (tl v) of
              Some hp \<Rightarrow> Some hp
            | None \<Rightarrow> host_and_path r)
         else host_and_path r)"

text \<open>\<^verbatim>\<open>/^(?:ssh|https?|git):\/\/(?:[^@]+@)?([^/]+)\/(.+)$/\<close>\<close>

definition urlMatch :: "string \<Rightarrow> (string \<times> string) option" where
  "urlMatch s = (case after_scheme s of None \<Rightarrow> None | Some r \<Rightarrow> authority_and_path r)"

definition normalizeGitUrl :: "string \<Rightarrow> string option" where
  "normalizeGitUrl url =
     (if url = [] then None
      else
        (let normalized = js_trim url in
         case sshMatch normalized of
           Some (host, path) \<Rightarrow> Some (host @ ''/'' @ strip_git_suffix path)
         | None \<Rightarrow>
             (case urlMatch normalized of
                Some (host, path) \<Rightarrow> Some (host @ ''/'' @ strip_git_suffix path)
              | None \<Rightarrow>
                  (if starts_with ''file://'' normalized then None else None))))"

text \<open>
  The inputs the URL grammar speaks of: a host, owner or repository name is a non-empty run
  of code units without \<^verbatim>\<open>/\<close>, \<^verbatim>\<open>:\<close>, \<^verbatim>\<open>@\<close> or white space, and
  the schemes of the URL form are the four of the pattern.
\<close>

definition url_token :: "string \<Rightarrow> bool" where
  "url_token s = (s \<noteq> [] \<and> (\<forall>c \<in> set s. c \<noteq> CHR ''/'' \<and> c \<noteq> CHR '':'' \<and> c \<noteq> CHR ''@'' \<and> \<not> js_space c))"

definition url_schemes :: "string set" where
  "url_schemes = {''ssh'', ''https'', ''http'', ''git''}"

section \<open>Paths and the file system\<close>

text \<open>
  A resolved path is an absolute POSIX path in the normal form that \<^verbatim>\<open>path.resolve\<close>
  returns: the list of its segments below the root. \<^verbatim>\<open>path.resolve\<close> returns such a
  path unchanged, so where the source resolves a path that is already resolved the model
  passes the resolved path on.
\<close>

type_synonym path = "string list"

text \<open>\<^verbatim>\<open>s.split(sep)\<close> for a separator of one code unit; the result is never empty.\<close>

fun split_on :: "char \<Rightarrow> string \<Rightarrow> string list" where
  "split_on sep [] = [[]]"
| "split_on sep (c # cs) =
     (if c = sep then [] # split_on sep cs
      else (case split_on sep cs of
              [] \<Rightarrow> [[c]]
            | w # ws \<Rightarrow> (c # w) # ws))"

definition path_str :: "path \<Rightarrow> string" where
  "path_str p = (if p = [] then ''/'' else concat (map (\<lambda>seg. CHR ''/'' # seg) p))"

definition resolve_segment :: "path \<Rightarrow> string \<Rightarrow> path" where
  "resolve_segment acc seg =
     (if seg = [] \<or> seg = ''.'' then acc
      else if seg = ''..'' then butlast acc
      else acc @ [seg])"

definition path_resolve :: "path \<Rightarrow> string \<Rightarrow> path" where
  "path_resolve cwd s =
     foldl resolve_segment (if starts_with ''/'' s then [] else cwd) (split_on (CHR ''/'') s)"

definition path_dirname :: "path \<Rightarrow> path" where
  "path_dirname p = butlast p"

definition path_basename :: "path \<Rightarrow> string" where
  "path_basename p = (if p = [] then [] else last p)"

definition path_join :: "path \<Rightarrow> string \<Rightarrow> path" where
  "path_join p seg = p @ [seg]"

datatype stats = IsDirectory | IsFile | IsOther

datatype git_command = ConfigGetRemoteOriginUrl | RevListMaxParents0Head | WorktreeListPorcelain

text \<open>
  What the code reads from outside: the working directory, \<^verbatim>\<open>fs.statSync\<close> and
  \<^verbatim>\<open>fs.readFileSync\<close> (\<open>None\<close> when they throw), \<^verbatim>\<open>fs.existsSync\<close>, the
  standard output of a git subcommand run in a directory (\<open>None\<close> on a non-zero exit, a
  timeout or a decoding failure), and the hexadecimal MD5 digest.
\<close>

record env =
  cwd :: path
  statSync :: "path \<Rightarrow> stats option"
  readFileSync :: "path \<Rightarrow> string option"
  existsSync :: "string \<Rightarrow> bool"
  git_stdout :: "git_command \<Rightarrow> path \<Rightarrow> string option"
  md5 :: "string \<Rightarrow> string"

section \<open>Git utilities: repository detection\<close>

record GitDetectionResult =
  gd_isGitRepo :: bool
  gd_repoRoot :: "path option"
  gd_isWorktree :: bool
  gd_mainGitDir :: "path option"
  gd_gitPath :: "path option"

definition execGitCommand :: "env \<Rightarrow> git_command \<Rightarrow> path \<Rightarrow> string option" where
  "execGitCommand e command dir = map_option js_trim (git_stdout e command dir)"

function findGitPath_at :: "env \<Rightarrow> path \<Rightarrow> (path \<times> bool) option" where
  "findGitPath_at e currentPath =
     (if currentPath = [] then None
      else
        (let gitPath = path_join currentPath ''.git'' in
         case statSync e gitPath of
           Some IsDirectory \<Rightarrow> Some (gitPath, False)
         | Some IsFile \<Rightarrow> Some (gitPath, True)
         | _ \<Rightarrow> findGitPath_at e (path_dirname currentPath)))"
  by pat_completeness auto
termination
  by (relation "measure (\<lambda>(e, p). length p)") (auto simp: path_dirname_def)

declare findGitPath_at.simps [simp del]

definition findGitPath :: "env \<Rightarrow> string \<Rightarrow> (path \<times> bool) option" where
  "findGitPath e startPath = findGitPath_at e (path_resolve (cwd e) startPath)"

text \<open>
  \<^verbatim>\<open>/^gitdir:\s*(.+)$/\<close>: the white space is skipped greedily; when nothing is left
  after it, the matcher gives the last white space back to the group, which takes it
  unless it is a line terminator.
\<close>

definition gitdirMatch :: "string \<Rightarrow> string option" where
  "gitdirMatch s =
     (case strip_prefix ''gitdir:'' s of
        None \<Rightarrow> None
      | Some r \<Rightarrow>
          (let ws = takeWhile js_space r;
               body = dropWhile js_space r
           in if body \<noteq> [] then (if dot_plus body then Some body else None)
              else if ws \<noteq> [] \<and> \<not> line_terminator (last ws) then Some [last ws]
              else None))"

definition regular_repo :: "path \<Rightarrow> path \<Rightarrow> GitDetectionResult" where
  "regular_repo repoRoot gitPath =
     \<lparr>gd_isGitRepo = True, gd_repoRoot = Some repoRoot, gd_isWorktree = False,
      gd_mainGitDir = None, gd_gitPath = Some gitPath\<rparr>"

definition detectGitRepo_at :: "env \<Rightarrow> path \<Rightarrow> GitDetectionResult" where
  "detectGitRepo_at e resolvedPath =
     (case findGitPath_at e resolvedPath of
        None \<Rightarrow>
          \<lparr>gd_isGitRepo = False, gd_repoRoot = None, gd_isWorktree = False,
           gd_mainGitDir = None, gd_gitPath = None\<rparr>
      | Some (gitPath, isFile) \<Rightarrow>
          (let repoRoot = path_dirname gitPath in
           if \<not> isFile then regular_repo repoRoot gitPath
           else
             (case readFileSync e gitPath of
                None \<Rightarrow> regular_repo repoRoot gitPath
              | Some content \<Rightarrow>
                  (case gitdirMatch (js_trim content) of
                     Some worktreeGitDir \<Rightarrow>
                       \<lparr>gd_isGitRepo = True, gd_repoRoot = Some repoRoot, gd_isWorktree = True,
                        gd_mainGitDir =
                          Some (path_dirname (path_dirname (path_resolve (cwd e) worktreeGitDir))),
                        gd_gitPath = Some gitPath\<rparr>
                   | None \<Rightarrow> regular_repo repoRoot gitPath))))"

definition detectGitRepo :: "env \<Rightarrow> string \<Rightarrow> GitDetectionResult" where
  "detectGitRepo e targetPath = detectGitRepo_at e (path_resolve (cwd e) targetPath)"

definition getRemoteOriginUrl :: "env \<Rightarrow> path \<Rightarrow> string option" where
  "getRemoteOriginUrl e repoPath = execGitCommand e ConfigGetRemoteOriginUrl repoPath"

definition getInitialCommitSha :: "env \<Rightarrow> path \<Rightarrow> string option" where
  "getInitialCommitSha e repoPath = execGitCommand e RevListMaxParents0Head repoPath"

definition listWorktrees :: "env \<Rightarrow> path \<Rightarrow> string list" where
  "listWorktrees e repoPath =
     (case execGitCommand e WorktreeListPorcelain repoPath of
        None \<Rightarrow> []
      | Some result \<Rightarrow>
          (if result = [] then []
           else map (drop (length ''worktree ''))
                  (filter (starts_with ''worktree '') (split_on (CHR 0x0A) result))))"

section \<open>Identity resolver\<close>

datatype identity_source = RemoteUrl | InitialCommit | PathHash

record RepoIdentity =
  ri_canonicalId :: string
  ri_remoteUrl :: "string option"
  ri_mainWorktreePath :: "string option"
  ri_detectedPaths :: "string list"
  ri_displayName :: string
  ri_identitySource :: identity_source
  ri_isGitRepo :: bool
  ri_isWorktree :: bool
  ri_repoRoot :: "string option"

definition canonicalIdFromUrl :: "env \<Rightarrow> string \<Rightarrow> string" where
  "canonicalIdFromUrl e normalizedUrl = md5 e normalizedUrl"

definition canonicalIdFromCommit :: "env \<Rightarrow> string \<Rightarrow> string" where
  "canonicalIdFromCommit e commitSha = md5 e (''commit:'' @ commitSha)"

definition canonicalIdFromPath :: "env \<Rightarrow> path \<Rightarrow> string" where
  "canonicalIdFromPath e resolvedPath = md5 e (path_str resolvedPath)"

definition extractDisplayName :: "string option \<Rightarrow> path \<Rightarrow> string" where
  "extractDisplayName remoteUrl repoPath =
     (case remoteUrl of
        None \<Rightarrow> path_basename repoPath
      | Some u \<Rightarrow>
          (if u = [] then path_basename repoPath
           else (let parts = split_on (CHR ''/'') u
                 in if last parts \<noteq> [] then last parts else u)))"

text \<open>\<^verbatim>\<open>if (!xs.includes(x)) xs.push(x)\<close>\<close>

definition push_new :: "'a list \<Rightarrow> 'a \<Rightarrow> 'a list" where
  "push_new xs x = (if x \<in> set xs then xs else xs @ [x])"

definition resolveIdentity_at :: "env \<Rightarrow> bool \<Rightarrow> path \<Rightarrow> RepoIdentity" where
  "resolveIdentity_at e includeWorktrees resolvedPath =
     (let gitInfo = detectGitRepo_at e resolvedPath in
      case (if gd_isGitRepo gitInfo then gd_repoRoot gitInfo else None) of
        None \<Rightarrow>
          \<lparr>ri_canonicalId = canonicalIdFromPath e resolvedPath,
           ri_remoteUrl = None,
           ri_mainWorktreePath = None,
           ri_detectedPaths = [path_str resolvedPath],
           ri_displayName = path_basename resolvedPath,
           ri_identitySource = PathHash,
           ri_isGitRepo = False,
           ri_isWorktree = False,
           ri_repoRoot = None\<rparr>
      | Some repoRoot \<Rightarrow>
          (let mainWorktreePath =
                 (if gd_isWorktree gitInfo
                  then map_option (\<lambda>d. path_str (path_dirname d)) (gd_mainGitDir gitInfo)
                  else None);
               detected0 =
                 (case mainWorktreePath of
                    None \<Rightarrow> [path_str repoRoot]
                  | Some m \<Rightarrow> push_new [path_str repoRoot] m);
               detectedPaths =
                 (if includeWorktrees then foldl push_new detected0 (listWorktrees e repoRoot)
                  else detected0);
               rawRemoteUrl = getRemoteOriginUrl e repoRoot;
               normalizedUrl =
                 (case rawRemoteUrl of
                    None \<Rightarrow> None
                  | Some raw \<Rightarrow> if raw = [] then None else normalizeGitUrl raw)
           in case (case normalizedUrl of None \<Rightarrow> None | Some u \<Rightarrow> if u = [] then None else Some u) of
                Some u \<Rightarrow>
                  \<lparr>ri_canonicalId = canonicalIdFromUrl e u,
                   ri_remoteUrl = Some u,
                   ri_mainWorktreePath = mainWorktreePath,
                   ri_detectedPaths = detectedPaths,
                   ri_displayName = extractDisplayName (Some u) repoRoot,
                   ri_identitySource = RemoteUrl,
                   ri_isGitRepo = True,
                   ri_isWorktree = gd_isWorktree gitInfo,
                   ri_repoRoot = Some (path_str repoRoot)\<rparr>
              | None \<Rightarrow>
                  (case (case getInitialCommitSha e repoRoot of
                           None \<Rightarrow> None
                         | Some sha \<Rightarrow> if sha = [] then None else Some sha) of
                     Some initialCommit \<Rightarrow>
                       \<lparr>ri_canonicalId = canonicalIdFromCommit e initialCommit,
                        ri_remoteUrl = None,
                        ri_mainWorktreePath = mainWorktreePath,
                        ri_detectedPaths = detectedPaths,
                        ri_displayName = extractDisplayName None repoRoot,
                        ri_identitySource = InitialCommit,
                        ri_isGitRepo = True,
                        ri_isWorktree = gd_isWorktree gitInfo,
                        ri_repoRoot = Some (path_str repoRoot)\<rparr>
                   | None \<Rightarrow>
                       \<lparr>ri_canonicalId = canonicalIdFromPath e repoRoot,
                        ri_remoteUrl = None,
                        ri_mainWorktreePath = mainWorktreePath,
                        ri_detectedPaths = detectedPaths,
                        ri_displayName = extractDisplayName None repoRoot,
                        ri_identitySource = PathHash,
                        ri_isGitRepo = True,
                        ri_isWorktree = gd_isWorktree gitInfo,
                        ri_repoRoot = Some (path_str repoRoot)\<rparr>)))"

definition resolveIdentity :: "env \<Rightarrow> string \<Rightarrow> RepoIdentity" where
  "resolveIdentity e targetPath = resolveIdentity_at e True (path_resolve (cwd e) targetPath)"

text \<open>
  A small world for evaluating the model: a repository at \<^verbatim>\<open>/a/main\<close> with origin
  \<^verbatim>\<open>git@github.com:x/y.git\<close>, a linked worktree of it at \<^verbatim>\<open>/a/feat\<close>, a
  repository without remote and without commits at \<^verbatim>\<open>/b\<close>, a directory \<^verbatim>\<open>/c\<close>
  whose \<^verbatim>\<open>.git\<close> file is not a worktree pointer, a repository with commits and no
  remote at \<^verbatim>\<open>/d\<close>, and a plain directory \<^verbatim>\<open>/tmp/p\<close>. The digest stands in for MD5:
  the input cut or padded to 32 code units.
\<close>

definition demo_stat :: "path \<Rightarrow> stats option" where
  "demo_stat p =
     (if p = [''a'', ''main'', ''.git''] \<or> p = [''b'', ''.git''] \<or> p = [''d'', ''.git'']
      then Some IsDirectory
      else if p = [''a'', ''feat'', ''.git''] \<or> p = [''c'', ''.git''] then Some IsFile
      else if p \<in> {[''a''], [''a'', ''main''], [''a'', ''feat''], [''b''], [''c''], [''d''],
                     [''tmp''], [''tmp'', ''p'']}
      then Some IsDirectory
      else None)"

definition demo_read :: "path \<Rightarrow> string option" where
  "demo_read p =
     (if p = [''a'', ''feat'', ''.git''] then Some ''gitdir: /a/main/.git/worktrees/feat''
      else if p = [''c'', ''.git''] then Some ''not a pointer''
      else None)"

definition demo_git :: "git_command \<Rightarrow> path \<Rightarrow> string option" where
  "demo_git command dir =
     (case command of
        ConfigGetRemoteOriginUrl \<Rightarrow>
          (if dir = [''a'', ''main''] \<or> dir = [''a'', ''feat'']
           then Some ''git@github.com:x/y.git'' else None)
      | RevListMaxParents0Head \<Rightarrow>
          (if dir = [''a'', ''main''] \<or> dir = [''a'', ''feat''] \<or> dir = [''d'']
           then Some ''0123abcd'' else None)
      | WorktreeListPorcelain \<Rightarrow> None)"

definition demo_md5 :: "string \<Rightarrow> string" where
  "demo_md5 s = take 32 (s @ replicate 32 (CHR ''0''))"

definition demo_env :: env where
  "demo_env =
     \<lparr>cwd = [],
      statSync = demo_stat,
      readFileSync = demo_read,
      existsSync = (\<lambda>s. demo_stat (path_resolve [] s) \<noteq> None),
      git_stdout = demo_git,
      md5 = demo_md5\<rparr>"

text \<open>
  The two facts the derivation of the canonical ID asks git for: the normalised URL of the
  remote \<^verbatim>\<open>origin\<close>, and the SHA of the root commit (git prints none, or fails, in a
  repository without commits).
\<close>

definition normalizedOrigin :: "env \<Rightarrow> path \<Rightarrow> string option" where
  "normalizedOrigin e repoRoot =
     (case getRemoteOriginUrl e repoRoot of None \<Rightarrow> None | Some raw \<Rightarrow> normalizeGitUrl raw)"

definition rootCommit :: "env \<Rightarrow> path \<Rightarrow> string option" where
  "rootCommit e repoRoot =
     (case getInitialCommitSha e repoRoot of
        None \<Rightarrow> None
      | Some sha \<Rightarrow> if sha = [] then None else Some sha)"

section \<open>JavaScript maps\<close>

text \<open>
  A \<^verbatim>\<open>Map\<close> keeps its entries in insertion order: \<^verbatim>\<open>set\<close> replaces the value of
  a key that is present and appends a new key, \<^verbatim>\<open>delete\<close> removes the entry.
\<close>

definition js_map_set :: "('k \<times> 'v) list \<Rightarrow> 'k \<Rightarrow> 'v \<Rightarrow> ('k \<times> 'v) list" where
  "js_map_set m k v =
     (if k \<in> fst ` set m then map (\<lambda>(k', v'). if k' = k then (k', v) else (k', v')) m
      else m @ [(k, v)])"

definition js_map_delete :: "('k \<times> 'v) list \<Rightarrow> 'k \<Rightarrow> ('k \<times> 'v) list" where
  "js_map_delete m k = filter (\<lambda>(k', v'). k' \<noteq> k) m"

section \<open>Repository registry\<close>

record RepoRecord =
  rr_canonicalId :: string
  rr_displayName :: string
  rr_remoteUrl :: "string option"
  rr_identitySource :: identity_source
  rr_knownPaths :: "path list"
  rr_worktrees :: "path list"
  rr_isIndexed :: bool
  rr_collectionName :: "string option"
  rr_lastIndexed :: "string option"
  rr_indexedFiles :: "int option"
  rr_totalChunks :: "int option"

record ResolveResult =
  res_found :: bool
  res_record :: "RepoRecord option"
  res_identity :: RepoIdentity
  res_isNewPathForExistingRepo :: bool
  res_primaryPath :: "path option"

record RegisterOptions =
  ro_collectionName :: "string option"
  ro_isIndexed :: "bool option"
  ro_indexedFiles :: "int option"
  ro_totalChunks :: "int option"

text \<open>The two private maps of the class; their keys are resolved paths and canonical IDs.\<close>

record RepoRegistry =
  repositories :: "(string \<times> RepoRecord) list"
  pathToCanonicalId :: "(path \<times> string) list"

datatype js_error = TypeError

definition empty_registry :: RepoRegistry where
  "empty_registry = \<lparr>repositories = [], pathToCanonicalId = []\<rparr>"

text \<open>\<^verbatim>\<open>xs[0]\<close>, which is \<^verbatim>\<open>undefined\<close> on an empty array.\<close>

definition first_elem :: "'a list \<Rightarrow> 'a option" where
  "first_elem xs = (case xs of [] \<Rightarrow> None | x # _ \<Rightarrow> Some x)"

text \<open>
  \<^verbatim>\<open>resolve\<close> reads the registry and changes nothing; the registry is returned with the
  result to say so. \<^verbatim>\<open>this.repositories.get(directCanonicalId)!\<close> is not checked: when
  the record is missing, reading its \<^verbatim>\<open>knownPaths\<close> raises.
\<close>

definition resolve :: "env \<Rightarrow> RepoRegistry \<Rightarrow> string \<Rightarrow> js_error + (ResolveResult \<times> RepoRegistry)" where
  "resolve e reg targetPath =
     (let normalizedPath = path_resolve (cwd e) targetPath;
          identity = resolveIdentity_at e True normalizedPath;
          canonicalId = ri_canonicalId identity
      in case (case map_of (pathToCanonicalId reg) normalizedPath of
                 None \<Rightarrow> None
               | Some d \<Rightarrow> if d = [] then None else Some d) of
           Some directCanonicalId \<Rightarrow>
             (case map_of (repositories reg) directCanonicalId of
                None \<Rightarrow> Inl TypeError
              | Some record \<Rightarrow>
                  Inr (\<lparr>res_found = True, res_record = Some record, res_identity = identity,
                        res_isNewPathForExistingRepo = False,
                        res_primaryPath = first_elem (rr_knownPaths record)\<rparr>, reg))
         | None \<Rightarrow>
             (case map_of (repositories reg) canonicalId of
                Some existingRecord \<Rightarrow>
                  Inr (\<lparr>res_found = True, res_record = Some existingRecord,
                        res_identity = identity, res_isNewPathForExistingRepo = True,
                        res_primaryPath = first_elem (rr_knownPaths existingRecord)\<rparr>, reg)
              | None \<Rightarrow>
                  Inr (\<lparr>res_found = False, res_record = None, res_identity = identity,
                        res_isNewPathForExistingRepo = False, res_primaryPath = None\<rparr>, reg)))"

text \<open>\<open>now\<close> is \<^verbatim>\<open>new Date().toISOString()\<close>.\<close>

definition register :: "env \<Rightarrow> string \<Rightarrow> RepoRegistry \<Rightarrow> string \<Rightarrow> RegisterOptions \<Rightarrow> RepoRecord \<times> RepoRegistry" where
  "register e now reg targetPath options =
     (let normalizedPath = path_resolve (cwd e) targetPath;
          identity = resolveIdentity_at e True normalizedPath;
          canonicalId = ri_canonicalId identity
      in case map_of (repositories reg) canonicalId of
           Some record \<Rightarrow>
             (let isKnown = (normalizedPath \<in> set (rr_knownPaths record));
                  record1 = (if isKnown then record
                             else record\<lparr>rr_knownPaths := rr_knownPaths record @ [normalizedPath]\<rparr>);
                  paths1 = (if isKnown then pathToCanonicalId reg
                            else js_map_set (pathToCanonicalId reg) normalizedPath canonicalId);
                  record2 = (if ri_isWorktree identity \<and> normalizedPath \<notin> set (rr_worktrees record1)
                             then record1\<lparr>rr_worktrees := rr_worktrees record1 @ [normalizedPath]\<rparr>
                             else record1);
                  record3 = (case ro_collectionName options of
                               None \<Rightarrow> record2
                             | Some c \<Rightarrow> record2\<lparr>rr_collectionName := Some c\<rparr>);
                  record4 = (case ro_isIndexed options of
                               None \<Rightarrow> record3
                             | Some b \<Rightarrow>
                                 (if b then record3\<lparr>rr_isIndexed := b, rr_lastIndexed := Some now\<rparr>
                                  else record3\<lparr>rr_isIndexed := b\<rparr>));
                  record5 = (case ro_indexedFiles options of
                               None \<Rightarrow> record4
                             | Some n \<Rightarrow> record4\<lparr>rr_indexedFiles := Some n\<rparr>);
                  record6 = (case ro_totalChunks options of
                               None \<Rightarrow> record5
                             | Some n \<Rightarrow> record5\<lparr>rr_totalChunks := Some n\<rparr>)
              in (record6,
                  \<lparr>repositories = js_map_set (repositories reg) canonicalId record6,
                   pathToCanonicalId = paths1\<rparr>))
         | None \<Rightarrow>
             (let record =
                    \<lparr>rr_canonicalId = canonicalId,
                     rr_displayName = ri_displayName identity,
                     rr_remoteUrl = ri_remoteUrl identity,
                     rr_identitySource = ri_identitySource identity,
                     rr_knownPaths = [normalizedPath],
                     rr_worktrees = (if ri_isWorktree identity then [normalizedPath] else []),
                     rr_isIndexed = (case ro_isIndexed options of None \<Rightarrow> False | Some b \<Rightarrow> b),
                     rr_collectionName = ro_collectionName options,
                     rr_lastIndexed = (if ro_isIndexed options = Some True then Some now else None),
                     rr_indexedFiles = ro_indexedFiles options,
                     rr_totalChunks = ro_totalChunks options\<rparr>
              in (record,
                  \<lparr>repositories = js_map_set (repositories reg) canonicalId record,
                   pathToCanonicalId = js_map_set (pathToCanonicalId reg) normalizedPath canonicalId\<rparr>)))"

definition markIndexed :: "string \<Rightarrow> RepoRegistry \<Rightarrow> string \<Rightarrow> string \<Rightarrow> int \<Rightarrow> int \<Rightarrow> RepoRegistry" where
  "markIndexed now reg canonicalId collectionName indexedFiles totalChunks =
     (case map_of (repositories reg) canonicalId of
        None \<Rightarrow> reg
      | Some record \<Rightarrow>
          reg\<lparr>repositories :=
                js_map_set (repositories reg) canonicalId
                  (record\<lparr>rr_isIndexed := True, rr_collectionName := Some collectionName,
                          rr_indexedFiles := Some indexedFiles, rr_totalChunks := Some totalChunks,
                          rr_lastIndexed := Some now\<rparr>)\<rparr>)"

definition markNotIndexed :: "RepoRegistry \<Rightarrow> string \<Rightarrow> RepoRegistry" where
  "markNotIndexed reg canonicalId =
     (case map_of (repositories reg) canonicalId of
        None \<Rightarrow> reg
      | Some record \<Rightarrow>
          reg\<lparr>repositories :=
                js_map_set (repositories reg) canonicalId
                  (record\<lparr>rr_isIndexed := False, rr_collectionName := None,
                          rr_indexedFiles := None, rr_totalChunks := None\<rparr>)\<rparr>)"

definition removePath :: "env \<Rightarrow> RepoRegistry \<Rightarrow> string \<Rightarrow> bool \<times> RepoRegistry" where
  "removePath e reg targetPath =
     (let normalizedPath = path_resolve (cwd e) targetPath
      in case (case map_of (pathToCanonicalId reg) normalizedPath of
                 None \<Rightarrow> None
               | Some c \<Rightarrow> if c = [] then None else Some c) of
           None \<Rightarrow> (False, reg)
         | Some canonicalId \<Rightarrow>
             (let paths1 = js_map_delete (pathToCanonicalId reg) normalizedPath
              in case map_of (repositories reg) canonicalId of
                   None \<Rightarrow> (True, reg\<lparr>pathToCanonicalId := paths1\<rparr>)
                 | Some record \<Rightarrow>
                     (let record1 =
                            record\<lparr>rr_knownPaths := filter (\<lambda>p. p \<noteq> normalizedPath) (rr_knownPaths record),
                                   rr_worktrees := filter (\<lambda>p. p \<noteq> normalizedPath) (rr_worktrees record)\<rparr>
                      in if rr_knownPaths record1 = []
                         then (True, \<lparr>repositories = js_map_delete (repositories reg) canonicalId,
                                      pathToCanonicalId = paths1\<rparr>)
                         else (True, \<lparr>repositories = js_map_set (repositories reg) canonicalId record1,
                                      pathToCanonicalId = paths1\<rparr>))))"

definition removeByCanonicalId :: "RepoRegistry \<Rightarrow> string \<Rightarrow> bool \<times> RepoRegistry" where
  "removeByCanonicalId reg canonicalId =
     (case map_of (repositories reg) canonicalId of
        None \<Rightarrow> (False, reg)
      | Some record \<Rightarrow>
          (True, \<lparr>repositories = js_map_delete (repositories reg) canonicalId,
                  pathToCanonicalId = foldl js_map_delete (pathToCanonicalId reg) (rr_knownPaths record)\<rparr>))"

definition registry_size :: "RepoRegistry \<Rightarrow> nat" where
  "registry_size reg = length (repositories reg)"

definition clear :: "RepoRegistry \<Rightarrow> RepoRegistry" where
  "clear reg = \<lparr>repositories = [], pathToCanonicalId = []\<rparr>"

text \<open>
  The registries that the public operations build from the empty one, in an unchanging
  environment.
\<close>

inductive reachable :: "env \<Rightarrow> RepoRegistry \<Rightarrow> bool" for e :: env where
  reach_empty: "reachable e empty_registry"
| reach_register: "reachable e reg \<Longrightarrow> reachable e (snd (register e now reg targetPath options))"
| reach_markIndexed: "reachable e reg \<Longrightarrow> reachable e (markIndexed now reg c name files chunks)"
| reach_markNotIndexed: "reachable e reg \<Longrightarrow> reachable e (markNotIndexed reg c)"
| reach_removePath: "reachable e reg \<Longrightarrow> reachable e (snd (removePath e reg targetPath))"
| reach_removeByCanonicalId: "reachable e reg \<Longrightarrow> reachable e (snd (removeByCanonicalId reg c))"
| reach_clear: "reachable e reg \<Longrightarrow> reachable e (clear reg)"

text \<open>An MD5 digest in hexadecimal has 32 code units.\<close>

definition md5_digest :: "env \<Rightarrow> bool" where
  "md5_digest e = (\<forall>s. length (md5 e s) = 32)"

definition canonicalIdOf :: "env \<Rightarrow> string \<Rightarrow> string" where
  "canonicalIdOf e targetPath = ri_canonicalId (resolveIdentity e targetPath)"

definition isRegistered :: "env \<Rightarrow> RepoRegistry \<Rightarrow> string \<Rightarrow> bool" where
  "isRegistered e reg targetPath =
     (map_of (pathToCanonicalId reg) (path_resolve (cwd e) targetPath) \<noteq> None)"

text \<open>
  Consistency of the two maps: a path is indexed under the canonical ID of its identity
  exactly when the record of that ID lists the path.
\<close>

definition registry_inv :: "env \<Rightarrow> RepoRegistry \<Rightarrow> bool" where
  "registry_inv e reg =
     ((\<forall>p c. map_of (pathToCanonicalId reg) p = Some c \<longrightarrow>
          c = ri_canonicalId (resolveIdentity_at e True p)
          \<and> (\<exists>r. map_of (repositories reg) c = Some r \<and> p \<in> set (rr_knownPaths r)))
      \<and> (\<forall>c r p. map_of (repositories reg) c = Some r \<and> p \<in> set (rr_knownPaths r) \<longrightarrow>
          map_of (pathToCanonicalId reg) p = Some c))"

definition demo_options :: RegisterOptions where
  "demo_options =
     \<lparr>ro_collectionName = Some ''hybrid_code_chunks_0123456789ab'', ro_isIndexed = Some True,
      ro_indexedFiles = Some 3, ro_totalChunks = Some 9\<rparr>"

definition demo_registry :: RepoRegistry where
  "demo_registry = snd (register demo_env ''2026-01-01T00:00:00.000Z'' empty_registry ''/a/main'' demo_options)"

section \<open>Collection names and their migration\<close>

record CollectionMigrationMapping =
  cm_oldName :: string
  cm_newName :: string
  cm_canonicalId :: string
  cm_path :: path
  cm_createdAt :: string
  cm_migrated :: bool
  cm_migratedAt :: "string option"

record CollectionMigrationState =
  ms_mappings :: "CollectionMigrationMapping list"
  ms_lastUpdated :: string

record CollectionNameResolution =
  cn_collectionName :: string
  cn_isLegacy :: bool
  cn_identity :: "RepoIdentity option"
  cn_legacyName :: "string option"
  cn_canonicalName :: "string option"

definition collection_prefix :: "bool \<Rightarrow> string" where
  "collection_prefix isHybrid = (if isHybrid then ''hybrid_code_chunks'' else ''code_chunks'')"

definition generateLegacyCollectionName :: "env \<Rightarrow> string \<Rightarrow> bool \<Rightarrow> string" where
  "generateLegacyCollectionName e codebasePath isHybrid =
     (let normalizedPath = path_resolve (cwd e) codebasePath;
          hash = md5 e (path_str normalizedPath)
      in collection_prefix isHybrid @ ''_'' @ take 8 hash)"

definition generateCanonicalCollectionName :: "env \<Rightarrow> string \<Rightarrow> bool \<Rightarrow> string" where
  "generateCanonicalCollectionName e canonicalId isHybrid =
     (let hash = md5 e canonicalId
      in collection_prefix isHybrid @ ''_'' @ take 12 hash)"

definition generateCollectionNames :: "env \<Rightarrow> string \<Rightarrow> bool \<Rightarrow> string \<times> string \<times> RepoIdentity" where
  "generateCollectionNames e codebasePath isHybrid =
     (let identity = resolveIdentity e codebasePath;
          legacyName = generateLegacyCollectionName e codebasePath isHybrid;
          canonicalName = generateCanonicalCollectionName e (ri_canonicalId identity) isHybrid
      in (legacyName, canonicalName, identity))"

text \<open>\<^verbatim>\<open>xs.findIndex(pred)\<close>, with \<open>None\<close> for \<^verbatim>\<open>-1\<close>.\<close>

fun findIndex :: "('a \<Rightarrow> bool) \<Rightarrow> 'a list \<Rightarrow> nat option" where
  "findIndex pred [] = None"
| "findIndex pred (x # xs) =
     (if pred x then Some 0 else map_option Suc (findIndex pred xs))"

text \<open>
  The mapping to add comes without \<^verbatim>\<open>createdAt\<close>, \<^verbatim>\<open>migrated\<close> and
  \<^verbatim>\<open>migratedAt\<close>; spread over an existing entry it replaces every field but
  \<^verbatim>\<open>migratedAt\<close>.
\<close>

definition addMigrationMapping ::
  "string \<Rightarrow> CollectionMigrationState \<Rightarrow> string \<Rightarrow> string \<Rightarrow> string \<Rightarrow> path \<Rightarrow> CollectionMigrationState" where
  "addMigrationMapping now state oldName newName canonicalId mpath =
     (let existingIndex =
            findIndex (\<lambda>m. cm_oldName m = oldName \<or> cm_path m = mpath) (ms_mappings state)
      in case existingIndex of
           Some i \<Rightarrow>
             state\<lparr>ms_mappings :=
                     (ms_mappings state)
                       [i := \<lparr>cm_oldName = oldName, cm_newName = newName,
                               cm_canonicalId = canonicalId, cm_path = mpath,
                               cm_createdAt = now, cm_migrated = False,
                               cm_migratedAt = cm_migratedAt (ms_mappings state ! i)\<rparr>]\<rparr>
         | None \<Rightarrow>
             state\<lparr>ms_mappings :=
                     ms_mappings state @
                       [\<lparr>cm_oldName = oldName, cm_newName = newName,
                         cm_canonicalId = canonicalId, cm_path = mpath,
                         cm_createdAt = now, cm_migrated = False, cm_migratedAt = None\<rparr>]\<rparr>)"

definition findMappingByLegacyName ::
  "CollectionMigrationState \<Rightarrow> string \<Rightarrow> CollectionMigrationMapping option" where
  "findMappingByLegacyName state legacyName =
     find (\<lambda>m. cm_oldName m = legacyName) (ms_mappings state)"

text \<open>
  What happens to the write of \<^verbatim>\<open>collection-migration.json\<close>: it succeeds, or creating
  the directory fails, or writing the file fails; both failures are caught and logged.
\<close>

datatype write_outcome = WriteOk | MkdirFails | WriteFails

text \<open>
  The migrator: its state, the names of the collections that exist in the vector store, and the
  content of the migration file.
\<close>

record CollectionMigrator =
  mg_state :: CollectionMigrationState
  mg_existingCollections :: "string list"
  mg_file :: "CollectionMigrationState option"

definition saveMigrationState :: "string \<Rightarrow> write_outcome \<Rightarrow> CollectionMigrator \<Rightarrow> CollectionMigrator" where
  "saveMigrationState now outcome mg =
     (case outcome of
        MkdirFails \<Rightarrow> mg
      | WriteFails \<Rightarrow> mg\<lparr>mg_state := (mg_state mg)\<lparr>ms_lastUpdated := now\<rparr>\<rparr>
      | WriteOk \<Rightarrow>
          mg\<lparr>mg_state := (mg_state mg)\<lparr>ms_lastUpdated := now\<rparr>,
             mg_file := Some ((mg_state mg)\<lparr>ms_lastUpdated := now\<rparr>)\<rparr>)"

definition setExistingCollections :: "CollectionMigrator \<Rightarrow> string list \<Rightarrow> CollectionMigrator" where
  "setExistingCollections mg collections = mg\<lparr>mg_existingCollections := remdups collections\<rparr>"

definition hasCollection :: "CollectionMigrator \<Rightarrow> string \<Rightarrow> bool" where
  "hasCollection mg collectionName = (collectionName \<in> set (mg_existingCollections mg))"

definition resolveCollectionName ::
  "env \<Rightarrow> string \<Rightarrow> write_outcome \<Rightarrow> CollectionMigrator \<Rightarrow> string \<Rightarrow> bool
     \<Rightarrow> CollectionNameResolution \<times> CollectionMigrator" where
  "resolveCollectionName e now outcome mg codebasePath isHybrid =
     (case generateCollectionNames e codebasePath isHybrid of
        (legacyName, canonicalName, identity) \<Rightarrow>
          if hasCollection mg legacyName then
            (let mg1 = mg\<lparr>mg_state :=
                           addMigrationMapping now (mg_state mg) legacyName canonicalName
                             (ri_canonicalId identity) (path_resolve (cwd e) codebasePath)\<rparr>;
                 mg2 = saveMigrationState now outcome mg1
             in (\<lparr>cn_collectionName = legacyName, cn_isLegacy = True,
                  cn_identity = Some identity, cn_legacyName = Some legacyName,
                  cn_canonicalName = Some canonicalName\<rparr>, mg2))
          else if hasCollection mg canonicalName then
            (\<lparr>cn_collectionName = canonicalName, cn_isLegacy = False,
              cn_identity = Some identity, cn_legacyName = Some legacyName,
              cn_canonicalName = Some canonicalName\<rparr>, mg)
          else
            (\<lparr>cn_collectionName = canonicalName, cn_isLegacy = False,
              cn_identity = Some identity, cn_legacyName = Some legacyName,
              cn_canonicalName = Some canonicalName\<rparr>, mg))"

definition demo_migrator :: CollectionMigrator where
  "demo_migrator =
     \<lparr>mg_state = \<lparr>ms_mappings = [], ms_lastUpdated = ''2026-01-01T00:00:00.000Z''\<rparr>,
      mg_existingCollections = [''hybrid_code_chunks_/tmp/p00''],
      mg_file = None\<rparr>"

section \<open>Network transport: authentication\<close>

datatype transport_mode = Stdio | Http | Both

text \<open>A step of start-up either ends the process with an exit status or goes on.\<close>

datatype 'a startup = Exit nat | Continue 'a

text \<open>\<open>envToken\<close> is \<^verbatim>\<open>process.env.MCP_AUTH_TOKEN\<close>.\<close>

definition validateAuthToken :: "transport_mode \<Rightarrow> string option \<Rightarrow> string option startup" where
  "validateAuthToken transportMode envToken =
     (if transportMode = Stdio then Continue None
      else (case envToken of
              None \<Rightarrow> Exit 2
            | Some token \<Rightarrow>
                if token = [] \<or> js_trim token = [] then Exit 2 else Continue (Some token)))"

text \<open>
  A request as the handler reads it: the method, the path of the URL, the
  \<^verbatim>\<open>Authorization\<close> and \<^verbatim>\<open>X-Forwarded-For\<close> headers and the peer address. Node
  joins repeated \<^verbatim>\<open>X-Forwarded-For\<close> lines into one string, so the header is a
  string when it is there.
\<close>

record request =
  rq_method :: string
  rq_pathname :: string
  rq_authorization :: "string option"
  rq_xForwardedFor :: "string option"
  rq_remoteAddress :: "string option"

record AuthMiddleware =
  am_token :: string
  am_excludePaths :: "string list"

record AuthResult =
  ar_authenticated :: bool
  ar_error :: "string option"
  ar_statusCode :: "nat option"

text \<open>\<^verbatim>\<open>toLowerCase\<close> on code units below 256.\<close>

definition to_lower :: "char \<Rightarrow> char" where
  "to_lower c =
     (let n = (of_char c :: nat)
      in if (65 \<le> n \<and> n \<le> 90) \<or> (192 \<le> n \<and> n \<le> 222 \<and> n \<noteq> 215) then char_of (n + 32) else c)"

definition requiresAuth :: "AuthMiddleware \<Rightarrow> string \<Rightarrow> bool" where
  "requiresAuth am pathname = (pathname \<notin> set (am_excludePaths am))"

definition authenticate :: "AuthMiddleware \<Rightarrow> request \<Rightarrow> AuthResult" where
  "authenticate am req =
     (case (case rq_authorization req of None \<Rightarrow> None | Some h \<Rightarrow> if h = [] then None else Some h) of
        None \<Rightarrow>
          \<lparr>ar_authenticated = False, ar_error = Some ''Authorization header required'',
           ar_statusCode = Some 401\<rparr>
      | Some authHeader \<Rightarrow>
          (let parts = split_on (CHR '' '') authHeader in
           if length parts \<noteq> 2 \<or> map to_lower (parts ! 0) \<noteq> ''bearer'' then
             \<lparr>ar_authenticated = False,
              ar_error = Some ''Invalid authorization format. Use: Bearer <token>'',
              ar_statusCode = Some 401\<rparr>
           else if parts ! 1 \<noteq> am_token am then
             \<lparr>ar_authenticated = False, ar_error = Some ''Invalid token'', ar_statusCode = Some 401\<rparr>
           else \<lparr>ar_authenticated = True, ar_error = None, ar_statusCode = None\<rparr>))"

text \<open>A number of JavaScript that is an integer or \<^verbatim>\<open>NaN\<close>.\<close>

datatype jsnum = NaN | Num int

text \<open>A header value is a string, or \<^verbatim>\<open>String(n)\<close> of a number.\<close>

datatype header_text = Text string | NumText jsnum

datatype body =
    NoBody
  | UnauthorizedBody "string option"
  | TooManyRequestsBody "int option"
  | HealthBody string int nat
  | NotFoundBody

record response =
  rsp_status :: nat
  rsp_headers :: "(string \<times> header_text) list"
  rsp_body :: body

text \<open>
  \<^verbatim>\<open>res.writeHead(status, headers)\<close>: the headers given are merged into those set
  before with \<^verbatim>\<open>res.setHeader\<close>, and win over them.
\<close>

definition writeHead :: "(string \<times> header_text) list \<Rightarrow> (string \<times> header_text) list \<Rightarrow> (string \<times> header_text) list" where
  "writeHead headersSet headers = foldl (\<lambda>h (k, v). js_map_set h k v) headersSet headers"

definition handleUnauthorized :: "(string \<times> header_text) list \<Rightarrow> AuthResult \<Rightarrow> response" where
  "handleUnauthorized headersSet result =
     \<lparr>rsp_status = (case ar_statusCode result of None \<Rightarrow> 401 | Some s \<Rightarrow> s),
      rsp_headers = writeHead headersSet
        [(''Content-Type'', Text ''application/json''),
         (''WWW-Authenticate'', Text ''Bearer realm=\"MCP Server\"'')],
      rsp_body = UnauthorizedBody (ar_error result)\<rparr>"

definition getClientIp :: "request \<Rightarrow> string" where
  "getClientIp req =
     (case (case rq_xForwardedFor req of None \<Rightarrow> None | Some f \<Rightarrow> if f = [] then None else Some f) of
        Some forwardedFor \<Rightarrow> js_trim (hd (split_on (CHR '','') forwardedFor))
      | None \<Rightarrow> (case rq_remoteAddress req of None \<Rightarrow> ''unknown'' | Some a \<Rightarrow> a))"

section \<open>Network transport: rate limiting\<close>

record RateLimitEntry =
  rle_count :: int
  rle_resetTime :: int

record RateLimitResult =
  rlr_allowed :: bool
  rlr_remaining :: jsnum
  rlr_retryAfter :: "int option"

record RateLimiter =
  rl_requestsPerMinute :: jsnum
  rl_windowMs :: int
  rl_limits :: "(string \<times> RateLimitEntry) list"
  rl_excludePaths :: "string list"

definition is_digit :: "char \<Rightarrow> bool" where
  "is_digit c = (48 \<le> (of_char c :: nat) \<and> (of_char c :: nat) \<le> 57)"

definition digits_value :: "string \<Rightarrow> int" where
  "digits_value ds = foldl (\<lambda>acc d. 10 * acc + (int (of_char d) - 48)) 0 ds"

text \<open>
  \<^verbatim>\<open>parseInt(s, 10)\<close>: leading white space, an optional sign, the longest run of digits.
  The value is the exact integer; JavaScript rounds one above \<open>2\<^sup>5\<^sup>3\<close> to a double.
\<close>

definition parseInt10 :: "string \<Rightarrow> jsnum" where
  "parseInt10 s =
     (let t = dropWhile js_space s;
          negative = starts_with ''-'' t;
          r = (if starts_with ''-'' t \<or> starts_with ''+'' t then tl t else t);
          ds = takeWhile is_digit r
      in if ds = [] then NaN
         else Num (if negative then - digits_value ds else digits_value ds))"

text \<open>
  The constructor: the option if given, else \<^verbatim>\<open>MCP_RATE_LIMIT\<close>, else \<^verbatim>\<open>'60'\<close>; a
  window of one minute.
\<close>

definition new_RateLimiter :: "jsnum option \<Rightarrow> string list option \<Rightarrow> string option \<Rightarrow> RateLimiter" where
  "new_RateLimiter requestsPerMinute excludePaths envRateLimit =
     \<lparr>rl_requestsPerMinute =
        (case requestsPerMinute of
           Some n \<Rightarrow> n
         | None \<Rightarrow> parseInt10 (case envRateLimit of None \<Rightarrow> ''60'' | Some s \<Rightarrow> s)),
      rl_windowMs = 60 * 1000,
      rl_limits = [],
      rl_excludePaths = (case excludePaths of None \<Rightarrow> [''/health''] | Some ps \<Rightarrow> remdups ps)\<rparr>"

definition shouldLimit :: "RateLimiter \<Rightarrow> string \<Rightarrow> bool" where
  "shouldLimit rl pathname = (pathname \<notin> set (rl_excludePaths rl))"

definition js_gt :: "int \<Rightarrow> jsnum \<Rightarrow> bool" where
  "js_gt a b = (case b of NaN \<Rightarrow> False | Num n \<Rightarrow> a > n)"

definition js_minus :: "jsnum \<Rightarrow> int \<Rightarrow> jsnum" where
  "js_minus a b = (case a of NaN \<Rightarrow> NaN | Num n \<Rightarrow> Num (n - b))"

text \<open>\<^verbatim>\<open>Math.ceil(x / 1000)\<close> for an integer \<open>x\<close>.\<close>

definition ceil_div_1000 :: "int \<Rightarrow> int" where
  "ceil_div_1000 x = - ((- x) div 1000)"

text \<open>\<open>now\<close> is \<^verbatim>\<open>Date.now()\<close>.\<close>

definition check :: "RateLimiter \<Rightarrow> string \<Rightarrow> int \<Rightarrow> RateLimitResult \<times> RateLimiter" where
  "check rl clientIp now =
     (case (case map_of (rl_limits rl) clientIp of
              None \<Rightarrow> None
            | Some entry \<Rightarrow> if now \<ge> rle_resetTime entry then None else Some entry) of
        None \<Rightarrow>
          (\<lparr>rlr_allowed = True, rlr_remaining = js_minus (rl_requestsPerMinute rl) 1,
            rlr_retryAfter = None\<rparr>,
           rl\<lparr>rl_limits := js_map_set (rl_limits rl) clientIp
                              \<lparr>rle_count = 1, rle_resetTime = now + rl_windowMs rl\<rparr>\<rparr>)
      | Some entry0 \<Rightarrow>
          (let entry = entry0\<lparr>rle_count := rle_count entry0 + 1\<rparr>;
               rl1 = rl\<lparr>rl_limits := js_map_set (rl_limits rl) clientIp entry\<rparr>
           in if js_gt (rle_count entry) (rl_requestsPerMinute rl) then
                (\<lparr>rlr_allowed = False, rlr_remaining = Num 0,
                  rlr_retryAfter = Some (ceil_div_1000 (rle_resetTime entry - now))\<rparr>, rl1)
              else
                (\<lparr>rlr_allowed = True,
                  rlr_remaining = js_minus (rl_requestsPerMinute rl) (rle_count entry),
                  rlr_retryAfter = None\<rparr>, rl1)))"

text \<open>
  The timer of the constructor runs \<^verbatim>\<open>cleanup\<close> every minute: it deletes the entries whose
  window is over. The keys of the map are looked at one by one.
\<close>

definition cleanup :: "RateLimiter \<Rightarrow> int \<Rightarrow> RateLimiter" where
  "cleanup rl now =
     rl\<lparr>rl_limits :=
          foldl js_map_delete (rl_limits rl)
            (filter (\<lambda>ip. case map_of (rl_limits rl) ip of
                            None \<Rightarrow> False
                          | Some entry \<Rightarrow> now \<ge> rle_resetTime entry)
               (remdups (map fst (rl_limits rl))))\<rparr>"

definition retryAfter_or_60 :: "RateLimitResult \<Rightarrow> jsnum" where
  "retryAfter_or_60 result = (case rlr_retryAfter result of None \<Rightarrow> Num 60 | Some r \<Rightarrow> Num r)"

definition handleLimited :: "RateLimiter \<Rightarrow> (string \<times> header_text) list \<Rightarrow> RateLimitResult \<Rightarrow> response" where
  "handleLimited rl headersSet result =
     \<lparr>rsp_status = 429,
      rsp_headers = writeHead headersSet
        [(''Content-Type'', Text ''application/json''),
         (''Retry-After'', NumText (retryAfter_or_60 result)),
         (''X-RateLimit-Limit'', NumText (rl_requestsPerMinute rl)),
         (''X-RateLimit-Remaining'', Text ''0''),
         (''X-RateLimit-Reset'', NumText (retryAfter_or_60 result))],
      rsp_body = TooManyRequestsBody (rlr_retryAfter result)\<rparr>"

text \<open>\<^verbatim>\<open>res.setHeader\<close> for the rate-limit headers; a retry time of zero is falsy.\<close>

definition addHeaders :: "RateLimiter \<Rightarrow> (string \<times> header_text) list \<Rightarrow> RateLimitResult \<Rightarrow> (string \<times> header_text) list" where
  "addHeaders rl headersSet result =
     (let h1 = js_map_set headersSet ''X-RateLimit-Limit'' (NumText (rl_requestsPerMinute rl));
          h2 = js_map_set h1 ''X-RateLimit-Remaining'' (NumText (rlr_remaining result))
      in case rlr_retryAfter result of
           None \<Rightarrow> h2
         | Some r \<Rightarrow> if r = 0 then h2 else js_map_set h2 ''X-RateLimit-Reset'' (NumText (Num r)))"

section \<open>Network transport: the request handler\<close>

record HttpTransport =
  ht_corsOrigin :: string
  ht_version :: string
  ht_startTime :: int
  ht_activeSessions :: nat
  ht_authMiddleware :: "AuthMiddleware option"
  ht_rateLimiter :: RateLimiter

text \<open>
  The constructor, as far as authentication and rate limiting go. \<open>envRateLimit\<close> is
  \<^verbatim>\<open>process.env.MCP_RATE_LIMIT\<close>.
\<close>

definition new_HttpTransport ::
  "string option \<Rightarrow> string \<Rightarrow> int \<Rightarrow> string option \<Rightarrow> jsnum option \<Rightarrow> string option \<Rightarrow> HttpTransport" where
  "new_HttpTransport corsOrigin version startTime authToken rateLimit envRateLimit =
     \<lparr>ht_corsOrigin = (case corsOrigin of None \<Rightarrow> ''*'' | Some c \<Rightarrow> c),
      ht_version = version,
      ht_startTime = startTime,
      ht_activeSessions = 0,
      ht_authMiddleware =
        (case authToken of
           None \<Rightarrow> None
         | Some t \<Rightarrow>
             if t = [] then None
             else Some \<lparr>am_token = t, am_excludePaths = [''/health'']\<rparr>),
      ht_rateLimiter = new_RateLimiter rateLimit (Some [''/health'']) envRateLimit\<rparr>"

text \<open>
  The part of \<^verbatim>\<open>ContextMcpServer.start\<close> that brings the network transport up: it
  validates the token when HTTP is requested, and is \<open>Continue None\<close> in stdio mode.
\<close>

definition start_http ::
  "transport_mode \<Rightarrow> string option \<Rightarrow> string option \<Rightarrow> string \<Rightarrow> int \<Rightarrow> HttpTransport option startup" where
  "start_http transportMode envToken envRateLimit version startTime =
     (if transportMode = Http \<or> transportMode = Both then
        (case validateAuthToken transportMode envToken of
           Exit status \<Rightarrow> Exit status
         | Continue authToken \<Rightarrow>
             Continue (Some (new_HttpTransport None version startTime authToken None envRateLimit)))
      else Continue None)"

text \<open>What the handler does with a request: it answers, or hands it to the session layer.\<close>

datatype handled = Responded response | McpRequest "(string \<times> header_text) list" string

definition cors_headers :: "HttpTransport \<Rightarrow> (string \<times> header_text) list" where
  "cors_headers ht =
     [(''Access-Control-Allow-Origin'', Text (ht_corsOrigin ht)),
      (''Access-Control-Allow-Methods'', Text ''GET, POST, DELETE, OPTIONS''),
      (''Access-Control-Allow-Headers'', Text ''Content-Type, Authorization, Mcp-Session-Id'')]"

definition handleHealthCheck :: "HttpTransport \<Rightarrow> int \<Rightarrow> (string \<times> header_text) list \<Rightarrow> response" where
  "handleHealthCheck ht now headersSet =
     \<lparr>rsp_status = 200,
      rsp_headers = writeHead headersSet [(''Content-Type'', Text ''application/json'')],
      rsp_body = HealthBody (ht_version ht) ((now - ht_startTime ht) div 1000) (ht_activeSessions ht)\<rparr>"

definition route :: "HttpTransport \<Rightarrow> int \<Rightarrow> request \<Rightarrow> (string \<times> header_text) list \<Rightarrow> string \<Rightarrow> handled" where
  "route ht now req headersSet clientIp =
     (if rq_pathname req = ''/health'' then Responded (handleHealthCheck ht now headersSet)
      else if rq_pathname req = ''/mcp'' then McpRequest headersSet clientIp
      else Responded \<lparr>rsp_status = 404,
                      rsp_headers = writeHead headersSet [(''Content-Type'', Text ''application/json'')],
                      rsp_body = NotFoundBody\<rparr>)"

definition handle_request :: "HttpTransport \<Rightarrow> int \<Rightarrow> request \<Rightarrow> handled \<times> HttpTransport" where
  "handle_request ht now req =
     (let headers0 = cors_headers ht in
      if rq_method req = ''OPTIONS'' then
        (Responded \<lparr>rsp_status = 204, rsp_headers = headers0, rsp_body = NoBody\<rparr>, ht)
      else
        (let clientIp = getClientIp req;
             authFailure =
               (case ht_authMiddleware ht of
                  None \<Rightarrow> None
                | Some am \<Rightarrow>
                    if requiresAuth am (rq_pathname req) then
                      (let authResult = authenticate am req
                       in if \<not> ar_authenticated authResult
                          then Some (handleUnauthorized headers0 authResult) else None)
                    else None)
         in case authFailure of
              Some unauthorized \<Rightarrow> (Responded unauthorized, ht)
            | None \<Rightarrow>
                if shouldLimit (ht_rateLimiter ht) (rq_pathname req) then
                  (case check (ht_rateLimiter ht) clientIp now of
                     (rateLimitResult, limiter1) \<Rightarrow>
                       (let headers1 = addHeaders limiter1 headers0 rateLimitResult;
                            ht1 = ht\<lparr>ht_rateLimiter := limiter1\<rparr>
                        in if \<not> rlr_allowed rateLimitResult
                           then (Responded (handleLimited limiter1 headers1 rateLimitResult), ht1)
                           else (route ht1 now req headers1 clientIp, ht1)))
                else (route ht now req headers0 clientIp, ht)))"

text \<open>A running transport, started with a token and the default budget, and some requests.\<close>

definition demo_transport :: HttpTransport where
  "demo_transport = new_HttpTransport None ''0.1.0'' 0 (Some ''tok'') None None"

definition demo_request :: "string \<Rightarrow> string \<Rightarrow> string option \<Rightarrow> request" where
  "demo_request method pathname authorization =
     \<lparr>rq_method = method, rq_pathname = pathname, rq_authorization = authorization,
      rq_xForwardedFor = None, rq_remoteAddress = Some ''10.0.0.1''\<rparr>"

text \<open>
  The states of a transport once it runs: what \<^verbatim>\<open>handle_request\<close>, the opening and
  closing of sessions and the timer of the limiter make of the state it was started in.
\<close>

inductive running :: "HttpTransport \<Rightarrow> HttpTransport \<Rightarrow> bool" for ht0 :: HttpTransport where
  run_start: "running ht0 ht0"
| run_request: "running ht0 ht \<Longrightarrow> running ht0 (snd (handle_request ht now req))"
| run_sessions: "running ht0 ht \<Longrightarrow> running ht0 (ht\<lparr>ht_activeSessions := n\<rparr>)"
| run_cleanup: "running ht0 ht \<Longrightarrow> running ht0 (ht\<lparr>ht_rateLimiter := cleanup (ht_rateLimiter ht) now\<rparr>)"

text \<open>
  A header that carries the token: a scheme that is \<^verbatim>\<open>bearer\<close> in any case, one space,
  and the token.
\<close>

definition bearer_header :: "string \<Rightarrow> string option \<Rightarrow> bool" where
  "bearer_header token h =
     (case h of
        None \<Rightarrow> False
      | Some s \<Rightarrow>
          ends_with (CHR '' '' # token) s
          \<and> map to_lower (take (length s - length (CHR '' '' # token)) s) = ''bearer'')"














section \<open>Snapshot store\<close>

text \<open>
  The three states of a codebase in the path-keyed formats. The fields are those the
  snapshot manager writes when it builds such a value.
\<close>

datatype index_status = Completed | LimitReached

datatype CodebaseInfo =
    InfoIndexed int int index_status string
  | InfoIndexing int string
  | InfoIndexFailed string "int option" string

datatype info_status = StatusIndexed | StatusIndexing | StatusIndexFailed

fun status_of :: "CodebaseInfo \<Rightarrow> info_status" where
  "status_of (InfoIndexed indexedFiles totalChunks indexStatus lastUpdated) = StatusIndexed"
| "status_of (InfoIndexing indexingPercentage lastUpdated) = StatusIndexing"
| "status_of (InfoIndexFailed errorMessage lastAttemptedPercentage lastUpdated) = StatusIndexFailed"

fun info_lastUpdated :: "CodebaseInfo \<Rightarrow> string" where
  "info_lastUpdated (InfoIndexed indexedFiles totalChunks indexStatus lastUpdated) = lastUpdated"
| "info_lastUpdated (InfoIndexing indexingPercentage lastUpdated) = lastUpdated"
| "info_lastUpdated (InfoIndexFailed errorMessage lastAttemptedPercentage lastUpdated) = lastUpdated"

record BranchSnapshot =
  bs_status :: info_status
  bs_indexedFiles :: int
  bs_totalChunks :: int
  bs_lastIndexed :: string
  bs_indexingPercentage :: "int option"
  bs_errorMessage :: "string option"

record RepoSnapshot =
  rs_displayName :: string
  rs_remoteUrl :: "string option"
  rs_identitySource :: identity_source
  rs_knownPaths :: "string list"
  rs_worktrees :: "string list"
  rs_branches :: "(string \<times> BranchSnapshot) list"
  rs_defaultBranch :: "string option"
  rs_lastIndexed :: string

text \<open>
  What \<^verbatim>\<open>JSON.parse\<close> makes of the snapshot file. The entries of an object come in the
  order of \<^verbatim>\<open>Object.entries\<close>. An entry of a v3 file that has no \<^verbatim>\<open>knownPaths\<close>
  array is \<open>RepoCorrupt\<close>, with its \<^verbatim>\<open>branches\<close> (if it has any) and its
  \<^verbatim>\<open>defaultBranch\<close>: filtering or spreading its \<^verbatim>\<open>knownPaths\<close> raises a
  \<^verbatim>\<open>TypeError\<close>, and so does looking into \<^verbatim>\<open>branches\<close> when there are none.
\<close>

datatype indexing_v1 = IndexingArray "string list" | IndexingObject "(string \<times> int) list" | IndexingAbsent

datatype repo_json =
    RepoOk RepoSnapshot
  | RepoCorrupt "(string \<times> BranchSnapshot) list option" "string option"

datatype snapshot_json =
    V1 "string list" indexing_v1
  | V2 "(string \<times> CodebaseInfo) list"
  | V3 "(string \<times> repo_json) list"

datatype file_content = NoFile | InvalidJson | Json snapshot_json

record SnapshotManager =
  sm_indexedCodebases :: "string list"
  sm_indexingCodebases :: "(string \<times> int) list"
  sm_codebaseFileCount :: "(string \<times> int) list"
  sm_codebaseInfoMap :: "(string \<times> CodebaseInfo) list"
  sm_repositories :: "(string \<times> RepoSnapshot) list"
  sm_pathToCanonicalId :: "(string \<times> string) list"
  sm_file :: file_content
  sm_writes :: nat
  sm_errors :: "string list"

text \<open>A new manager, with the snapshot file it will read.\<close>

definition new_SnapshotManager :: "file_content \<Rightarrow> SnapshotManager" where
  "new_SnapshotManager content =
     \<lparr>sm_indexedCodebases = [], sm_indexingCodebases = [], sm_codebaseFileCount = [],
      sm_codebaseInfoMap = [], sm_repositories = [], sm_pathToCanonicalId = [],
      sm_file = content, sm_writes = 0, sm_errors = []\<rparr>"

record repo_group =
  g_identity :: RepoIdentity
  g_paths :: "string list"
  g_info :: CodebaseInfo

text \<open>
  \<^verbatim>\<open>resolveIdentity\<close> under \<^verbatim>\<open>try\<close>: \<open>None\<close> stands for the exception, which the
  resolver of this model never raises.
\<close>

definition safeResolveIdentity :: "env \<Rightarrow> string \<Rightarrow> RepoIdentity option" where
  "safeResolveIdentity e codebasePath = Some (resolveIdentity e codebasePath)"

definition pathBasedCanonicalId :: "env \<Rightarrow> string \<Rightarrow> string" where
  "pathBasedCanonicalId e codebasePath = md5 e (path_str (path_resolve (cwd e) codebasePath))"

text \<open>\<^verbatim>\<open>path.basename\<close> of a string that is not resolved first.\<close>

definition basename_str :: "string \<Rightarrow> string" where
  "basename_str s =
     (let t = rev (dropWhile (\<lambda>c. c = CHR ''/'') (rev s))
      in rev (takeWhile (\<lambda>c. c \<noteq> CHR ''/'') (rev t)))"

definition createFallbackIdentity :: "env \<Rightarrow> string \<Rightarrow> RepoIdentity" where
  "createFallbackIdentity e codebasePath =
     \<lparr>ri_canonicalId = pathBasedCanonicalId e codebasePath,
      ri_remoteUrl = None,
      ri_mainWorktreePath = None,
      ri_detectedPaths = [codebasePath],
      ri_displayName = basename_str codebasePath,
      ri_identitySource = PathHash,
      ri_isGitRepo = False,
      ri_isWorktree = False,
      ri_repoRoot = None\<rparr>"

text \<open>\<^verbatim>\<open>identity?.canonicalId || this.pathBasedCanonicalId(codebasePath)\<close>\<close>

definition group_key :: "env \<Rightarrow> string \<Rightarrow> string" where
  "group_key e codebasePath =
     (case safeResolveIdentity e codebasePath of
        None \<Rightarrow> pathBasedCanonicalId e codebasePath
      | Some identity \<Rightarrow>
          if ri_canonicalId identity = [] then pathBasedCanonicalId e codebasePath
          else ri_canonicalId identity)"

definition group_identity :: "env \<Rightarrow> string \<Rightarrow> RepoIdentity" where
  "group_identity e codebasePath =
     (case safeResolveIdentity e codebasePath of
        None \<Rightarrow> createFallbackIdentity e codebasePath
      | Some identity \<Rightarrow> identity)"

text \<open>\<^verbatim>\<open>repo.branches[repo.defaultBranch || 'default']\<close>\<close>

definition default_branch :: "RepoSnapshot \<Rightarrow> BranchSnapshot option" where
  "default_branch repo =
     map_of (rs_branches repo)
       (case rs_defaultBranch repo of None \<Rightarrow> ''default'' | Some b \<Rightarrow> if b = [] then ''default'' else b)"

text \<open>\<^verbatim>\<open>x || 0\<close> and \<^verbatim>\<open>x || 'Unknown error'\<close>\<close>

definition or_zero :: "int option \<Rightarrow> int" where
  "or_zero x = (case x of None \<Rightarrow> 0 | Some n \<Rightarrow> n)"

definition or_unknown_error :: "string option \<Rightarrow> string" where
  "or_unknown_error x = (case x of None \<Rightarrow> ''Unknown error'' | Some m \<Rightarrow> if m = [] then ''Unknown error'' else m)"

definition populate_path :: "BranchSnapshot \<Rightarrow> SnapshotManager \<Rightarrow> string \<Rightarrow> SnapshotManager" where
  "populate_path defaultBranch sm pathItem =
     (case bs_status defaultBranch of
        StatusIndexed \<Rightarrow>
          sm\<lparr>sm_indexedCodebases := push_new (sm_indexedCodebases sm) pathItem,
             sm_codebaseFileCount :=
               js_map_set (sm_codebaseFileCount sm) pathItem (bs_indexedFiles defaultBranch),
             sm_codebaseInfoMap :=
               js_map_set (sm_codebaseInfoMap sm) pathItem
                 (InfoIndexed (bs_indexedFiles defaultBranch) (bs_totalChunks defaultBranch)
                    Completed (bs_lastIndexed defaultBranch))\<rparr>
      | StatusIndexing \<Rightarrow>
          sm\<lparr>sm_indexingCodebases :=
               js_map_set (sm_indexingCodebases sm) pathItem
                 (or_zero (bs_indexingPercentage defaultBranch)),
             sm_codebaseInfoMap :=
               js_map_set (sm_codebaseInfoMap sm) pathItem
                 (InfoIndexing (or_zero (bs_indexingPercentage defaultBranch))
                    (bs_lastIndexed defaultBranch))\<rparr>
      | StatusIndexFailed \<Rightarrow>
          sm\<lparr>sm_codebaseInfoMap :=
               js_map_set (sm_codebaseInfoMap sm) pathItem
                 (InfoIndexFailed (or_unknown_error (bs_errorMessage defaultBranch)) None
                    (bs_lastIndexed defaultBranch))\<rparr>)"

definition populateLegacyStateFromRepo :: "SnapshotManager \<Rightarrow> string \<Rightarrow> RepoSnapshot \<Rightarrow> SnapshotManager" where
  "populateLegacyStateFromRepo sm canonicalId repo =
     (case default_branch repo of
        None \<Rightarrow> sm
      | Some defaultBranch \<Rightarrow> foldl (populate_path defaultBranch) sm (rs_knownPaths repo))"

definition clear_state :: "SnapshotManager \<Rightarrow> SnapshotManager" where
  "clear_state sm =
     sm\<lparr>sm_repositories := [], sm_pathToCanonicalId := [], sm_indexedCodebases := [],
        sm_indexingCodebases := [], sm_codebaseFileCount := [], sm_codebaseInfoMap := []\<rparr>"

definition branch_of_info :: "CodebaseInfo \<Rightarrow> BranchSnapshot" where
  "branch_of_info info =
     \<lparr>bs_status = status_of info,
      bs_indexedFiles = (case info of InfoIndexed f c s t \<Rightarrow> f | _ \<Rightarrow> 0),
      bs_totalChunks = (case info of InfoIndexed f c s t \<Rightarrow> c | _ \<Rightarrow> 0),
      bs_lastIndexed = info_lastUpdated info,
      bs_indexingPercentage = (case info of InfoIndexing p t \<Rightarrow> Some p | _ \<Rightarrow> None),
      bs_errorMessage = (case info of InfoIndexFailed m a t \<Rightarrow> Some m | _ \<Rightarrow> None)\<rparr>"

definition add_repository :: "SnapshotManager \<Rightarrow> string \<Rightarrow> RepoSnapshot \<Rightarrow> SnapshotManager" where
  "add_repository sm canonicalId repo =
     populateLegacyStateFromRepo
       (sm\<lparr>sm_repositories := js_map_set (sm_repositories sm) canonicalId repo,
           sm_pathToCanonicalId :=
             foldl (\<lambda>m p. js_map_set m p canonicalId) (sm_pathToCanonicalId sm) (rs_knownPaths repo)\<rparr>)
       canonicalId repo"

definition build_group :: "env \<Rightarrow> string \<Rightarrow> SnapshotManager \<Rightarrow> string \<times> repo_group \<Rightarrow> SnapshotManager" where
  "build_group e now sm entry =
     (case entry of
        (canonicalId, grp) \<Rightarrow>
          (let worktrees =
                 filter (\<lambda>p. case safeResolveIdentity e p of
                                None \<Rightarrow> False
                              | Some pathIdentity \<Rightarrow> ri_isWorktree pathIdentity)
                   (g_paths grp);
               repoSnapshot =
                 \<lparr>rs_displayName = ri_displayName (g_identity grp),
                  rs_remoteUrl = ri_remoteUrl (g_identity grp),
                  rs_identitySource = ri_identitySource (g_identity grp),
                  rs_knownPaths = g_paths grp,
                  rs_worktrees = worktrees,
                  rs_branches = [(''default'', branch_of_info (g_info grp))],
                  rs_defaultBranch = Some ''default'',
                  rs_lastIndexed = now\<rparr>
           in add_repository sm canonicalId repoSnapshot))"

definition buildV3StateFromGroups :: "env \<Rightarrow> string \<Rightarrow> SnapshotManager \<Rightarrow> (string \<times> repo_group) list \<Rightarrow> SnapshotManager" where
  "buildV3StateFromGroups e now sm groups = foldl (build_group e now) (clear_state sm) groups"

text \<open>One step of the grouping loops; \<open>v2\<close> says whether an indexed info replaces another one.\<close>

definition group_step :: "env \<Rightarrow> bool \<Rightarrow> (string \<times> repo_group) list \<Rightarrow> string \<times> CodebaseInfo \<Rightarrow> (string \<times> repo_group) list" where
  "group_step e v2 repoGroups entry =
     (case entry of
        (codebasePath, info) \<Rightarrow>
          if \<not> existsSync e codebasePath then repoGroups
          else
            (let canonicalId = group_key e codebasePath in
             case map_of repoGroups canonicalId of
               Some grp \<Rightarrow>
                 (let grp1 = grp\<lparr>g_paths := push_new (g_paths grp) codebasePath\<rparr>;
                      grp2 = (if v2 \<and> status_of info = StatusIndexed
                                  \<and> status_of (g_info grp1) \<noteq> StatusIndexed
                              then grp1\<lparr>g_info := info\<rparr> else grp1)
                  in js_map_set repoGroups canonicalId grp2)
             | None \<Rightarrow>
                 js_map_set repoGroups canonicalId
                   \<lparr>g_identity = group_identity e codebasePath, g_paths = [codebasePath],
                    g_info = info\<rparr>))"

text \<open>
  The migration of a v1 file reads the clock for the \<^verbatim>\<open>lastUpdated\<close> of its entries, and
  \<^verbatim>\<open>buildV3StateFromGroups\<close> reads it again for the \<^verbatim>\<open>lastIndexed\<close> of the repository
  records; \<open>now\<close> stands for both readings.
\<close>

definition migrateV1ToV3 :: "env \<Rightarrow> string \<Rightarrow> SnapshotManager \<Rightarrow> string list \<Rightarrow> SnapshotManager" where
  "migrateV1ToV3 e now sm indexedCodebases =
     buildV3StateFromGroups e now sm
       (foldl (group_step e False) []
          (map (\<lambda>codebasePath. (codebasePath, InfoIndexed 0 0 Completed now)) indexedCodebases))"

definition migrateV2ToV3 :: "env \<Rightarrow> string \<Rightarrow> SnapshotManager \<Rightarrow> (string \<times> CodebaseInfo) list \<Rightarrow> SnapshotManager" where
  "migrateV2ToV3 e now sm codebases =
     buildV3StateFromGroups e now sm (foldl (group_step e True) [] codebases)"

text \<open>
  The loop of \<^verbatim>\<open>loadV3Format\<close>. It stops at the entry that raises, and what it has put
  into the state by then stays there.
\<close>

fun load_repositories :: "env \<Rightarrow> SnapshotManager \<Rightarrow> (string \<times> repo_json) list \<Rightarrow> js_error option \<times> SnapshotManager" where
  "load_repositories e sm [] = (None, sm)"
| "load_repositories e sm ((canonicalId, RepoCorrupt branches defaultBranch) # entries) = (Some TypeError, sm)"
| "load_repositories e sm ((canonicalId, RepoOk repoSnapshot) # entries) =
     (let validPaths = filter (existsSync e) (rs_knownPaths repoSnapshot) in
      if validPaths = [] then load_repositories e sm entries
      else
        (let updatedSnapshot =
               repoSnapshot\<lparr>rs_knownPaths := validPaths,
                            rs_worktrees := filter (\<lambda>w. w \<in> set validPaths) (rs_worktrees repoSnapshot)\<rparr>
         in load_repositories e (add_repository sm canonicalId updatedSnapshot) entries))"

definition loadV3Format :: "env \<Rightarrow> SnapshotManager \<Rightarrow> (string \<times> repo_json) list \<Rightarrow> js_error option \<times> SnapshotManager" where
  "loadV3Format e sm entries = load_repositories e (clear_state sm) entries"

definition saveCodebaseSnapshot :: "write_outcome \<Rightarrow> SnapshotManager \<Rightarrow> SnapshotManager" where
  "saveCodebaseSnapshot outcome sm =
     (case outcome of
        WriteOk \<Rightarrow>
          sm\<lparr>sm_file := Json (V3 (map (\<lambda>(canonicalId, repo). (canonicalId, RepoOk repo)) (sm_repositories sm))),
             sm_writes := sm_writes sm + 1\<rparr>
      | _ \<Rightarrow> sm\<lparr>sm_errors := sm_errors sm @ [''Error saving snapshot'']\<rparr>)"

text \<open>
  \<^verbatim>\<open>loadCodebaseSnapshot\<close>: every exception of the body is caught and logged, so the
  function returns in every case; the state is the one the body left.
\<close>

definition loadCodebaseSnapshot :: "env \<Rightarrow> string \<Rightarrow> write_outcome \<Rightarrow> SnapshotManager \<Rightarrow> SnapshotManager" where
  "loadCodebaseSnapshot e now outcome sm =
     (case sm_file sm of
        NoFile \<Rightarrow> sm
      | InvalidJson \<Rightarrow> sm\<lparr>sm_errors := sm_errors sm @ [''Error loading snapshot'']\<rparr>
      | Json (V3 entries) \<Rightarrow>
          (case loadV3Format e sm entries of
             (Some err, sm1) \<Rightarrow> sm1\<lparr>sm_errors := sm_errors sm1 @ [''Error loading snapshot'']\<rparr>
           | (None, sm1) \<Rightarrow> saveCodebaseSnapshot outcome sm1)
      | Json (V2 codebases) \<Rightarrow> saveCodebaseSnapshot outcome (migrateV2ToV3 e now sm codebases)
      | Json (V1 indexedCodebases indexingCodebases) \<Rightarrow>
          saveCodebaseSnapshot outcome (migrateV1ToV3 e now sm indexedCodebases))"

text \<open>The legacy views.\<close>

definition branch_named :: "(string \<times> BranchSnapshot) list \<Rightarrow> string option \<Rightarrow> BranchSnapshot option" where
  "branch_named branches defaultBranch =
     map_of branches
       (case defaultBranch of None \<Rightarrow> ''default'' | Some b \<Rightarrow> if b = [] then ''default'' else b)"

text \<open>
  What one repository of a v3 file adds to the indexed paths: its \<^verbatim>\<open>knownPaths\<close> when the
  default branch is indexed, nothing when it is not or is not there.
\<close>

definition indexed_paths_of :: "repo_json \<Rightarrow> js_error + string list" where
  "indexed_paths_of r =
     (case r of
        RepoOk repo \<Rightarrow>
          (case default_branch repo of
             Some b \<Rightarrow> if bs_status b = StatusIndexed then Inr (rs_knownPaths repo) else Inr []
           | None \<Rightarrow> Inr [])
      | RepoCorrupt None defaultBranch \<Rightarrow> Inl TypeError
      | RepoCorrupt (Some branches) defaultBranch \<Rightarrow>
          (case branch_named branches defaultBranch of
             Some b \<Rightarrow> if bs_status b = StatusIndexed then Inl TypeError else Inr []
           | None \<Rightarrow> Inr []))"

fun indexed_paths_v3 :: "(string \<times> repo_json) list \<Rightarrow> js_error + string list" where
  "indexed_paths_v3 [] = Inr []"
| "indexed_paths_v3 ((canonicalId, r) # entries) =
     (case indexed_paths_of r of
        Inl err \<Rightarrow> Inl err
      | Inr paths \<Rightarrow>
          (case indexed_paths_v3 entries of
             Inl err \<Rightarrow> Inl err
           | Inr others \<Rightarrow> Inr (paths @ others)))"

definition getIndexedCodebases :: "SnapshotManager \<Rightarrow> string list" where
  "getIndexedCodebases sm =
     (case sm_file sm of
        NoFile \<Rightarrow> []
      | InvalidJson \<Rightarrow> sm_indexedCodebases sm
      | Json (V3 entries) \<Rightarrow>
          (case indexed_paths_v3 entries of Inl err \<Rightarrow> sm_indexedCodebases sm | Inr paths \<Rightarrow> paths)
      | Json (V2 codebases) \<Rightarrow>
          map fst (filter (\<lambda>(p, info). status_of info = StatusIndexed) codebases)
      | Json (V1 indexedCodebases indexingCodebases) \<Rightarrow> indexedCodebases)"

definition getIndexingCodebasesWithProgress :: "SnapshotManager \<Rightarrow> (string \<times> int) list" where
  "getIndexingCodebasesWithProgress sm = sm_indexingCodebases sm"

definition getCodebaseInfo :: "SnapshotManager \<Rightarrow> string \<Rightarrow> CodebaseInfo option" where
  "getCodebaseInfo sm codebasePath = map_of (sm_codebaseInfoMap sm) codebasePath"

text \<open>
  What a v3 snapshot keeps of a \<^verbatim>\<open>CodebaseInfo\<close>: the status of the index is reported
  as completed, an empty error message as \<^verbatim>\<open>Unknown error\<close>, and the percentage of the
  last attempt is gone.
\<close>

fun kept_info :: "CodebaseInfo \<Rightarrow> CodebaseInfo" where
  "kept_info (InfoIndexed indexedFiles totalChunks indexStatus lastUpdated) =
     InfoIndexed indexedFiles totalChunks Completed lastUpdated"
| "kept_info (InfoIndexing indexingPercentage lastUpdated) = InfoIndexing indexingPercentage lastUpdated"
| "kept_info (InfoIndexFailed errorMessage lastAttemptedPercentage lastUpdated) =
     InfoIndexFailed (if errorMessage = [] then ''Unknown error'' else errorMessage) None lastUpdated"

text \<open>Snapshot files over the demonstration world.\<close>

definition demo_v2_merged :: file_content where
  "demo_v2_merged =
     Json (V2 [(''/a/main'', InfoIndexed 10 50 Completed ''2026-01-01''),
               (''/a/feat'', InfoIndexing 40 ''2026-01-02'')])"

definition demo_v2_limit :: file_content where
  "demo_v2_limit = Json (V2 [(''/tmp/p'', InfoIndexed 10 50 LimitReached ''2026-01-01'')])"

definition demo_v1 :: file_content where
  "demo_v1 = Json (V1 [''/tmp/p'', ''/gone''] (IndexingObject [(''/d'', 30)]))"

definition demo_codebases :: "(string \<times> CodebaseInfo) list" where
  "demo_codebases =
     [(''/tmp/p'', InfoIndexed 10 50 Completed ''2026-01-01''),
      (''/gone'', InfoIndexed 1 1 Completed ''2026-01-01''),
      (''/d'', InfoIndexing 40 ''2026-01-02''),
      (''/b'', InfoIndexFailed ''boom'' None ''2026-01-03'')]"

definition demo_v2 :: file_content where
  "demo_v2 = Json (V2 demo_codebases)"

definition demo_repo :: RepoSnapshot where
  "demo_repo =
     \<lparr>rs_displayName = ''p'', rs_remoteUrl = None, rs_identitySource = PathHash,
      rs_knownPaths = [''/tmp/p''], rs_worktrees = [],
      rs_branches = [(''default'', branch_of_info (InfoIndexed 1 1 Completed ''2026-01-01''))],
      rs_defaultBranch = Some ''default'', rs_lastIndexed = ''2026-01-01''\<rparr>"

definition demo_v3_partly_corrupt :: file_content where
  "demo_v3_partly_corrupt = Json (V3 [(''id-a'', RepoOk demo_repo), (''id-b'', RepoCorrupt None None)])"

text \<open>
  The group and the repository record that the migration builds for a path that shares its
  canonical ID with no other path of the snapshot.
\<close>

definition single_group :: "env \<Rightarrow> string \<times> CodebaseInfo \<Rightarrow> string \<times> repo_group" where
  "single_group e entry =
     (case entry of
        (codebasePath, info) \<Rightarrow>
          (group_key e codebasePath,
           \<lparr>g_identity = group_identity e codebasePath, g_paths = [codebasePath], g_info = info\<rparr>))"

definition single_repo :: "env \<Rightarrow> string \<Rightarrow> string \<times> CodebaseInfo \<Rightarrow> string \<times> RepoSnapshot" where
  "single_repo e now entry =
     (case entry of
        (codebasePath, info) \<Rightarrow>
          (group_key e codebasePath,
           \<lparr>rs_displayName = ri_displayName (group_identity e codebasePath),
            rs_remoteUrl = ri_remoteUrl (group_identity e codebasePath),
            rs_identitySource = ri_identitySource (group_identity e codebasePath),
            rs_knownPaths = [codebasePath],
            rs_worktrees = (if ri_isWorktree (resolveIdentity e codebasePath) then [codebasePath] else []),
            rs_branches = [(''default'', branch_of_info info)],
            rs_defaultBranch = Some ''default'',
            rs_lastIndexed = now\<rparr>))"

text \<open>The legacy views of a path-keyed snapshot: the indexing paths with their progress.\<close>

definition indexing_progress :: "(string \<times> CodebaseInfo) list \<Rightarrow> (string \<times> int) list" where
  "indexing_progress codebases =
     concat (map (\<lambda>(p, info). case info of InfoIndexing pct t \<Rightarrow> [(p, pct)] | _ \<Rightarrow> []) codebases)"

definition indexed_paths :: "(string \<times> CodebaseInfo) list \<Rightarrow> string list" where
  "indexed_paths codebases = map fst (filter (\<lambda>(p, info). status_of info = StatusIndexed) codebases)"

chapter \<open>Properties\<close>

subsection \<open>URL normalisation\<close>

lemma line_terminator_space: "line_terminator c \<Longrightarrow> js_space c"
  by (auto simp: line_terminator_def js_space_def)

lemma dropWhile_hd_id: "s \<noteq> [] \<Longrightarrow> \<not> P (hd s) \<Longrightarrow> dropWhile P s = s"
  by (cases s) auto

lemma js_trim_id: "s \<noteq> [] \<Longrightarrow> \<not> js_space (hd s) \<Longrightarrow> \<not> js_space (last s) \<Longrightarrow> js_trim s = s"
  by (simp add: js_trim_def dropWhile_hd_id hd_rev)

lemma takeWhile_until: "c \<notin> set h \<Longrightarrow> takeWhile (\<lambda>x. x \<noteq> c) (h @ c # t) = h"
  by (induction h) auto

lemma dropWhile_until: "c \<notin> set h \<Longrightarrow> dropWhile (\<lambda>x. x \<noteq> c) (h @ c # t) = c # t"
  by (induction h) auto

lemma takeWhile_all: "c \<notin> set h \<Longrightarrow> takeWhile (\<lambda>x. x \<noteq> c) h = h"
  by (induction h) auto

lemma dropWhile_all: "c \<notin> set h \<Longrightarrow> dropWhile (\<lambda>x. x \<noteq> c) h = []"
  by (induction h) auto

lemma split_at_first:
  assumes "dropWhile (\<lambda>x. x \<noteq> c) r \<noteq> []"
  shows "r = takeWhile (\<lambda>x. x \<noteq> c) r @ c # tl (dropWhile (\<lambda>x. x \<noteq> c) r)"
proof -
  let ?P = "\<lambda>x. x \<noteq> c"
  from assms have "\<not> ?P (hd (dropWhile ?P r))" by (rule hd_dropWhile)
  with assms have "dropWhile ?P r = c # tl (dropWhile ?P r)" by (cases "dropWhile ?P r") auto
  moreover have "r = takeWhile ?P r @ dropWhile ?P r" by simp
  ultimately show ?thesis by simp
qed

lemma strip_prefix_Some: "strip_prefix p s = Some r \<longleftrightarrow> s = p @ r"
proof
  assume "strip_prefix p s = Some r"
  then have "take (length p) s = p" "r = drop (length p) s"
    by (auto simp: strip_prefix_def starts_with_def split: if_splits)
  then show "s = p @ r" by (metis append_take_drop_id)
next
  assume "s = p @ r" then show "strip_prefix p s = Some r"
    by (simp add: strip_prefix_def starts_with_def)
qed

lemma strip_git_suffix_app: "strip_git_suffix (p @ ''.git'') = p"
  by (simp add: strip_git_suffix_def ends_with_def)

lemma sshMatch_form:
  assumes "h \<noteq> []" "CHR '':'' \<notin> set h" "dot_plus p"
  shows "sshMatch (''git@'' @ h @ CHR '':'' # p) = Some (h, p)"
proof -
  have "strip_prefix ''git@'' (''git@'' @ h @ CHR '':'' # p) = Some (h @ CHR '':'' # p)"
    unfolding strip_prefix_Some ..
  then show ?thesis using assms
    by (simp add: sshMatch_def takeWhile_until dropWhile_until)
qed

lemma host_and_path_form:
  assumes "h \<noteq> []" "CHR ''/'' \<notin> set h" "dot_plus p"
  shows "host_and_path (h @ CHR ''/'' # p) = Some (h, p)"
  using assms by (simp add: host_and_path_def takeWhile_until dropWhile_until)

lemma sshMatch_Some:
  assumes "sshMatch s = Some (h, p)"
  shows "s = ''git@'' @ h @ CHR '':'' # p \<and> h \<noteq> [] \<and> CHR '':'' \<notin> set h \<and> dot_plus p"
proof -
  let ?P = "\<lambda>c. c \<noteq> CHR '':''"
  from assms obtain r where sp: "strip_prefix ''git@'' s = Some r"
    by (auto simp: sshMatch_def split: option.splits)
  with assms have h: "h = takeWhile ?P r" and hne: "h \<noteq> []"
    and rest: "dropWhile ?P r \<noteq> []" and p: "p = tl (dropWhile ?P r)" and dp: "dot_plus p"
    by (auto simp: sshMatch_def Let_def split: if_splits)
  from split_at_first[OF rest] h p have r: "r = h @ CHR '':'' # p" by simp
  from sp have "s = ''git@'' @ r" by (simp only: strip_prefix_Some)
  moreover have "CHR '':'' \<notin> set h" using h by (auto dest: set_takeWhileD)
  ultimately show ?thesis using r hne dp by simp
qed

lemma host_and_path_Some:
  assumes "host_and_path r = Some (h, p)"
  shows "r = h @ CHR ''/'' # p \<and> h \<noteq> [] \<and> CHR ''/'' \<notin> set h \<and> dot_plus p"
proof -
  let ?P = "\<lambda>c. c \<noteq> CHR ''/''"
  from assms have h: "h = takeWhile ?P r" and hne: "h \<noteq> []"
    and rest: "dropWhile ?P r \<noteq> []" and p: "p = tl (dropWhile ?P r)" and dp: "dot_plus p"
    by (auto simp: host_and_path_def Let_def split: if_splits)
  from split_at_first[OF rest] h p have r: "r = h @ CHR ''/'' # p" by simp
  moreover have "CHR ''/'' \<notin> set h" using h by (auto dest: set_takeWhileD)
  ultimately show ?thesis using hne dp by simp
qed

lemma after_scheme_Some:
  assumes "after_scheme s = Some r"
  shows "\<exists>sch \<in> {''ssh'', ''https'', ''http'', ''git''}. s = sch @ ''://'' @ r"
proof -
  from assms consider "strip_prefix ''ssh://'' s = Some r" | "strip_prefix ''https://'' s = Some r"
    | "strip_prefix ''http://'' s = Some r" | "strip_prefix ''git://'' s = Some r"
    by (auto simp: after_scheme_def split: option.splits)
  then show ?thesis
    by cases (simp_all only: strip_prefix_Some, auto)
qed

lemma after_scheme_form:
  "sch \<in> {''ssh'', ''https'', ''http'', ''git''} \<Longrightarrow> after_scheme (sch @ ''://'' @ r) = Some r"
  by (auto simp: after_scheme_def strip_prefix_def starts_with_def)

lemma authority_and_path_Some:
  assumes "authority_and_path r = Some (h, p)"
  shows "\<exists>a. r = a @ h @ CHR ''/'' # p \<and> (a = [] \<or> last a = CHR ''@'')
           \<and> h \<noteq> [] \<and> CHR ''/'' \<notin> set h \<and> dot_plus p"
proof -
  let ?P = "\<lambda>c. c \<noteq> CHR ''@''"
  from assms consider
      (cred) "dropWhile ?P r \<noteq> []" "host_and_path (tl (dropWhile ?P r)) = Some (h, p)"
    | (plain) "host_and_path r = Some (h, p)"
    by (auto simp: authority_and_path_def Let_def split: option.splits if_splits)
  then show ?thesis
  proof cases
    case cred
    from host_and_path_Some[OF cred(2)] have t: "tl (dropWhile ?P r) = h @ CHR ''/'' # p"
      and rest: "h \<noteq> []" "CHR ''/'' \<notin> set h" "dot_plus p" by simp_all
    from split_at_first[OF cred(1)] t
    have "r = (takeWhile ?P r @ ''@'') @ h @ CHR ''/'' # p" by simp
    moreover have "last (takeWhile ?P r @ ''@'') = CHR ''@''" by simp
    ultimately show ?thesis using rest by blast
  next
    case plain
    from host_and_path_Some[OF plain]
    have "r = [] @ h @ CHR ''/'' # p" and "h \<noteq> []" "CHR ''/'' \<notin> set h" "dot_plus p"
      by simp_all
    then show ?thesis by blast
  qed
qed

lemma authority_and_path_form:
  assumes a: "a = [] \<or> (\<exists>cred. a = cred @ ''@'' \<and> cred \<noteq> [] \<and> CHR ''@'' \<notin> set cred)"
    and h: "h \<noteq> []" "CHR ''/'' \<notin> set h" "CHR ''@'' \<notin> set h"
    and p: "dot_plus p" "CHR ''@'' \<notin> set p"
  shows "authority_and_path (a @ h @ CHR ''/'' # p) = Some (h, p)"
proof -
  have hp: "host_and_path (h @ CHR ''/'' # p) = Some (h, p)"
    using h p by (simp add: host_and_path_form)
  from a show ?thesis
  proof
    assume "a = []"
    moreover have "CHR ''@'' \<notin> set (h @ CHR ''/'' # p)" using h p by simp
    then have "dropWhile (\<lambda>c. c \<noteq> CHR ''@'') (h @ CHR ''/'' # p) = []" by (rule dropWhile_all)
    ultimately show ?thesis using hp by (simp add: authority_and_path_def)
  next
    assume "\<exists>cred. a = cred @ ''@'' \<and> cred \<noteq> [] \<and> CHR ''@'' \<notin> set cred"
    then obtain cred where c: "a = cred @ ''@''" "cred \<noteq> []" "CHR ''@'' \<notin> set cred" by blast
    have r: "a @ h @ CHR ''/'' # p = cred @ CHR ''@'' # (h @ CHR ''/'' # p)" using c by simp
    show ?thesis
      unfolding r authority_and_path_def Let_def
      using c hp by (simp add: takeWhile_until dropWhile_until)
  qed
qed

lemma ends_with_iff: "ends_with p s \<longleftrightarrow> (\<exists>ys. s = ys @ p)"
proof
  assume "ends_with p s"
  then have "s = take (length s - length p) s @ p"
    by (metis append_take_drop_id ends_with_def)
  then show "\<exists>ys. s = ys @ p" ..
next
  assume "\<exists>ys. s = ys @ p"
  then show "ends_with p s" by (auto simp: ends_with_def)
qed

lemma ends_with_git_path:
  assumes "ends_with ''.git'' (owner @ CHR ''/'' # name)" "name \<noteq> []"
  shows "ends_with ''.git'' name"
proof -
  from assms(1) obtain ys where ys: "(owner @ ''/'') @ name = ys @ ''.git''"
    by (auto simp: ends_with_iff)
  then consider us where "owner @ ''/'' = ys @ us" "us @ name = ''.git''"
    | us where "(owner @ ''/'') @ us = ys" "name = us @ ''.git''"
    unfolding append_eq_append_conv2 by blast
  then show ?thesis
  proof cases
    case 1
    show ?thesis
    proof (cases "us = []")
      case True with 1 show ?thesis by (simp add: ends_with_def)
    next
      case False
      then have "last us = CHR ''/''" using 1(1) by (metis last_appendR last_snoc)
      with False have "CHR ''/'' \<in> set us" by (metis last_in_set)
      then have "CHR ''/'' \<in> set (us @ name)" by simp
      with 1(2) show ?thesis by simp
    qed
  next
    case 2 then show ?thesis by (auto simp: ends_with_iff)
  qed
qed

lemma strip_git_suffix_path:
  assumes "sfx = ''.git'' \<or> (sfx = [] \<and> \<not> ends_with ''.git'' name)" "name \<noteq> []"
  shows "strip_git_suffix (owner @ CHR ''/'' # name @ sfx) = owner @ CHR ''/'' # name"
proof -
  from assms(1) show ?thesis
  proof
    assume "sfx = ''.git''"
    then have "owner @ CHR ''/'' # name @ sfx = (owner @ CHR ''/'' # name) @ ''.git''" by simp
    then show ?thesis by (simp only: strip_git_suffix_app)
  next
    assume a: "sfx = [] \<and> \<not> ends_with ''.git'' name"
    then have "\<not> ends_with ''.git'' (owner @ CHR ''/'' # name)"
      using ends_with_git_path[OF _ assms(2)] by blast
    with a show ?thesis by (simp add: strip_git_suffix_def)
  qed
qed

lemma url_token_no_lt: "url_token s \<Longrightarrow> c \<in> set s \<Longrightarrow> \<not> line_terminator c"
  unfolding url_token_def using line_terminator_space by blast

lemma git_sfx_chars:
  assumes "sfx = ''.git'' \<or> sfx = []" "c \<in> set sfx"
  shows "\<not> line_terminator c" "c \<noteq> CHR ''@''" 
proof -
  from assms have c: "c \<in> {CHR ''.'', CHR ''g'', CHR ''i'', CHR ''t''}" by auto
  then show "c \<noteq> CHR ''@''" by auto
  have "\<not> line_terminator (CHR ''.'')" "\<not> line_terminator (CHR ''g'')"
    "\<not> line_terminator (CHR ''i'')" "\<not> line_terminator (CHR ''t'')"
    by (simp_all add: line_terminator_def)
  with c show "\<not> line_terminator c" by auto
qed

lemma url_token_dot_plus:
  assumes "url_token owner" "url_token name" "sfx = ''.git'' \<or> sfx = []"
  shows "dot_plus (owner @ CHR ''/'' # name @ sfx)"
    and "CHR ''@'' \<notin> set (owner @ CHR ''/'' # name @ sfx)"
    and "\<not> js_space (last (owner @ CHR ''/'' # name @ sfx))"
proof -
  have sl: "\<not> line_terminator (CHR ''/'')" by (simp add: line_terminator_def)
  have "\<forall>c \<in> set (owner @ CHR ''/'' # name @ sfx). \<not> line_terminator c"
    using url_token_no_lt[OF assms(1)] url_token_no_lt[OF assms(2)] git_sfx_chars(1)[OF assms(3)] sl
    by auto
  then show "dot_plus (owner @ CHR ''/'' # name @ sfx)"
    by (simp add: dot_plus_def)
  have "CHR ''@'' \<notin> set owner" "CHR ''@'' \<notin> set name"
    using assms(1,2) unfolding url_token_def by blast+
  moreover have "CHR ''@'' \<notin> set sfx" using git_sfx_chars(2)[OF assms(3)] by blast
  ultimately show "CHR ''@'' \<notin> set (owner @ CHR ''/'' # name @ sfx)" by simp
  from assms(2) have n: "name \<noteq> []" "\<not> js_space (last name)"
    unfolding url_token_def by (blast, metis last_in_set)
  have t: "\<not> js_space (CHR ''t'')" by (simp add: js_space_def)
  from assms(3) show "\<not> js_space (last (owner @ CHR ''/'' # name @ sfx))"
  proof
    assume "sfx = ''.git''" then show ?thesis using t by simp
  next
    assume "sfx = []" then show ?thesis using n by simp
  qed
qed

lemma normalizeGitUrl_ssh:
  "u \<noteq> [] \<Longrightarrow> js_trim u = n \<Longrightarrow> sshMatch n = Some (h, p)
     \<Longrightarrow> normalizeGitUrl u = Some (h @ ''/'' @ strip_git_suffix p)"
  by (simp add: normalizeGitUrl_def)

lemma normalizeGitUrl_url:
  "u \<noteq> [] \<Longrightarrow> js_trim u = n \<Longrightarrow> sshMatch n = None \<Longrightarrow> after_scheme n = Some r
     \<Longrightarrow> authority_and_path r = Some (h, p)
     \<Longrightarrow> normalizeGitUrl u = Some (h @ ''/'' @ strip_git_suffix p)"
  by (simp add: normalizeGitUrl_def urlMatch_def)

lemma sshMatch_not_git: "strip_prefix ''git@'' s = None \<Longrightarrow> sshMatch s = None"
  by (simp add: sshMatch_def)

text \<open>
  Claim C3. Every input of the forms \<^verbatim>\<open>git@host:owner/name(.git)?\<close> and
  \<^verbatim>\<open>scheme://[creds@]host/owner/name(.git)?\<close>, for the schemes ssh, http, https and
  git, is normalised to \<^verbatim>\<open>host/owner/name\<close>: a trailing \<^verbatim>\<open>.git\<close> and the
  credential segment are dropped, so the SSH and HTTPS forms of one repository normalise to
  the same string. A \<^verbatim>\<open>file://\<close> URL gives no value, and so does every input that,
  once trimmed, is neither \<^verbatim>\<open>git@h:p\<close> nor \<^verbatim>\<open>scheme://[...@]h/p\<close>.
\<close>

theorem normalizeGitUrl_forms:
  assumes tok: "url_token host" "url_token owner" "url_token name"
    and sfx: "sfx = ''.git'' \<or> (sfx = [] \<and> \<not> ends_with ''.git'' name)"
    and cred: "cred \<noteq> []" "CHR ''@'' \<notin> set cred"
    and auth: "auth = [] \<or> auth = cred @ ''@''"
    and sch: "sch \<in> url_schemes"
  shows "normalizeGitUrl (''git@'' @ host @ '':'' @ owner @ ''/'' @ name @ sfx)
           = Some (host @ ''/'' @ owner @ ''/'' @ name)
       \<and> normalizeGitUrl (sch @ ''://'' @ auth @ host @ ''/'' @ owner @ ''/'' @ name @ sfx)
           = Some (host @ ''/'' @ owner @ ''/'' @ name)
       \<and> (starts_with ''file://'' (js_trim u) \<longrightarrow> normalizeGitUrl u = None)
       \<and> (\<forall>r. normalizeGitUrl u = Some r \<longrightarrow>
            (\<exists>h p. h \<noteq> [] \<and> p \<noteq> [] \<and> r = h @ ''/'' @ strip_git_suffix p \<and>
               (js_trim u = ''git@'' @ h @ '':'' @ p \<or>
                (\<exists>s \<in> url_schemes. \<exists>a. js_trim u = s @ ''://'' @ a @ h @ ''/'' @ p
                    \<and> (a = [] \<or> last a = CHR ''@'')))))"
proof (intro conjI allI impI)
  let ?path = "owner @ CHR ''/'' # name @ sfx"
  from sfx have sfx': "sfx = ''.git'' \<or> sfx = []" by blast
  note dp = url_token_dot_plus[OF tok(2,3) sfx']
  from tok have h: "host \<noteq> []" "CHR '':'' \<notin> set host" "CHR ''/'' \<notin> set host"
    "CHR ''@'' \<notin> set host" and n: "name \<noteq> []"
    by (auto simp: url_token_def)
  have strip: "strip_git_suffix ?path = owner @ CHR ''/'' # name"
    by (rule strip_git_suffix_path[OF sfx n])
  show "normalizeGitUrl (''git@'' @ host @ '':'' @ owner @ ''/'' @ name @ sfx)
           = Some (host @ ''/'' @ owner @ ''/'' @ name)"
  proof -
    let ?u = "''git@'' @ host @ CHR '':'' # ?path"
    have "last ?u = last ?path" by simp
    then have "js_trim ?u = ?u" using dp(3) by (intro js_trim_id) (simp_all add: js_space_def)
    moreover have "sshMatch ?u = Some (host, ?path)" using h dp(1) by (intro sshMatch_form)
    moreover have "?u \<noteq> []" by simp
    ultimately have "normalizeGitUrl ?u = Some (host @ ''/'' @ strip_git_suffix ?path)"
      by (intro normalizeGitUrl_ssh)
    then show ?thesis unfolding strip by simp
  qed
  show "normalizeGitUrl (sch @ ''://'' @ auth @ host @ ''/'' @ owner @ ''/'' @ name @ sfx)
           = Some (host @ ''/'' @ owner @ ''/'' @ name)"
  proof -
    let ?r = "auth @ host @ CHR ''/'' # ?path"
    let ?u = "sch @ ''://'' @ ?r"
    from sch have sch': "sch \<in> {''ssh'', ''https'', ''http'', ''git''}" by (simp add: url_schemes_def)
    have "last ?u = last ?path" by simp
    moreover have "\<not> js_space (hd ?u)" using sch' by (auto simp: js_space_def)
    ultimately have trim: "js_trim ?u = ?u" using dp(3) by (intro js_trim_id) simp_all
    have "strip_prefix ''git@'' ?u = None"
      using sch' by (auto simp: strip_prefix_def starts_with_def)
    then have "sshMatch ?u = None" by (rule sshMatch_not_git)
    moreover have "after_scheme ?u = Some ?r" by (rule after_scheme_form[OF sch'])
    moreover have "authority_and_path ?r = Some (host, ?path)"
      using auth cred h dp(1,2) by (intro authority_and_path_form) auto
    moreover have "?u \<noteq> []" by simp
    ultimately have "normalizeGitUrl ?u = Some (host @ ''/'' @ strip_git_suffix ?path)"
      using trim by (intro normalizeGitUrl_url)
    then show ?thesis unfolding strip by simp
  qed
next
  assume f: "starts_with ''file://'' (js_trim u)"
  then obtain t where t: "js_trim u = ''file://'' @ t"
    by (metis append_take_drop_id starts_with_def)
  have "sshMatch (js_trim u) = None" unfolding t
    by (simp add: sshMatch_def strip_prefix_def starts_with_def)
  moreover have "urlMatch (js_trim u) = None" unfolding t
    by (simp add: urlMatch_def after_scheme_def strip_prefix_def starts_with_def)
  ultimately show "normalizeGitUrl u = None" by (simp add: normalizeGitUrl_def)
next
  fix r assume r: "normalizeGitUrl u = Some r"
  then consider h p where "sshMatch (js_trim u) = Some (h, p)" "r = h @ ''/'' @ strip_git_suffix p"
    | h p where "urlMatch (js_trim u) = Some (h, p)" "r = h @ ''/'' @ strip_git_suffix p"
    by (auto simp: normalizeGitUrl_def Let_def split: if_splits option.splits)
  then show "\<exists>h p. h \<noteq> [] \<and> p \<noteq> [] \<and> r = h @ ''/'' @ strip_git_suffix p \<and>
               (js_trim u = ''git@'' @ h @ '':'' @ p \<or>
                (\<exists>s \<in> url_schemes. \<exists>a. js_trim u = s @ ''://'' @ a @ h @ ''/'' @ p
                    \<and> (a = [] \<or> last a = CHR ''@'')))"
  proof cases
    case 1
    from sshMatch_Some[OF 1(1)] 1(2) show ?thesis by (auto simp: dot_plus_def)
  next
    case 2
    from 2(1) obtain t where t: "after_scheme (js_trim u) = Some t" "authority_and_path t = Some (h, p)"
      by (auto simp: urlMatch_def split: option.splits)
    from after_scheme_Some[OF t(1)] obtain s where s: "s \<in> url_schemes" "js_trim u = s @ ''://'' @ t"
      unfolding url_schemes_def by blast
    from authority_and_path_Some[OF t(2)] obtain a where
      a: "t = a @ h @ CHR ''/'' # p" "a = [] \<or> last a = CHR ''@''" "h \<noteq> []" "dot_plus p" by blast
    have "js_trim u = s @ ''://'' @ a @ h @ ''/'' @ p" using s(2) a(1) by simp
    with s(1) a 2(2) show ?thesis unfolding dot_plus_def by blast
  qed
qed

theorem normalizeGitUrl_forms_witness:
  "normalizeGitUrl ''git@github.com:u/r.git'' = Some ''github.com/u/r''
   \<and> normalizeGitUrl ''https://github.com/u/r.git'' = Some ''github.com/u/r''
   \<and> normalizeGitUrl ''file:///path/to/repo'' = None"
proof -
  have tok: "url_token ''github.com''" "url_token ''u''" "url_token ''r''"
    by (simp_all add: url_token_def js_space_def)
  have f: "starts_with ''file://'' (js_trim ''file:///path/to/repo'')"
    by (simp add: starts_with_def js_trim_def js_space_def)
  from normalizeGitUrl_forms[of "''github.com''" "''u''" "''r''" "''.git''" "''tok''" "[]" "''https''"
      "''file:///path/to/repo''", OF tok] f
  show ?thesis by (simp add: url_schemes_def)
qed

subsection \<open>Repository detection\<close>

lemma gitdirMatch_Some:
  assumes "gitdirMatch s = Some b"
  shows "\<exists>ws. s = ''gitdir:'' @ ws @ b \<and> (\<forall>c \<in> set ws. js_space c) \<and> dot_plus b"
proof -
  from assms obtain r where r: "strip_prefix ''gitdir:'' s = Some r"
    by (auto simp: gitdirMatch_def split: option.splits)
  then have s: "s = ''gitdir:'' @ r" by (simp only: strip_prefix_Some)
  let ?ws = "takeWhile js_space r" and ?body = "dropWhile js_space r"
  have ws: "\<forall>c \<in> set ?ws. js_space c" by (auto dest: set_takeWhileD)
  show ?thesis
  proof (cases "?body = []")
    case False
    with assms r have "b = ?body" "dot_plus ?body"
      by (auto simp: gitdirMatch_def Let_def split: if_splits)
    moreover have "r = ?ws @ ?body" by simp
    ultimately show ?thesis using s ws by metis
  next
    case True
    with assms r have w: "?ws \<noteq> []" "\<not> line_terminator (last ?ws)" "b = [last ?ws]"
      by (auto simp: gitdirMatch_def Let_def split: if_splits)
    have "r = ?ws @ ?body" by simp
    with True have "r = ?ws" by (metis append_Nil2)
    with w(1) have "r = butlast ?ws @ [last ?ws]" by simp
    moreover have "\<forall>c \<in> set (butlast ?ws). js_space c" using ws by (auto dest: in_set_butlastD)
    moreover have "dot_plus [last ?ws]" using w(2) by (simp add: dot_plus_def)
    ultimately show ?thesis using s w(3) by metis
  qed
qed

lemma gitdirMatch_body:
  "strip_prefix ''gitdir:'' s = Some r \<Longrightarrow> dropWhile js_space r = b \<Longrightarrow> b \<noteq> [] \<Longrightarrow> dot_plus b
     \<Longrightarrow> gitdirMatch s = Some b"
  by (simp add: gitdirMatch_def Let_def del: dropWhile_eq_Nil_conv)

lemma gitdirMatch_ws:
  "strip_prefix ''gitdir:'' s = Some r \<Longrightarrow> dropWhile js_space r = [] \<Longrightarrow> takeWhile js_space r = w
     \<Longrightarrow> w \<noteq> [] \<Longrightarrow> \<not> line_terminator (last w) \<Longrightarrow> gitdirMatch s = Some [last w]"
  by (simp add: gitdirMatch_def Let_def del: dropWhile_eq_Nil_conv takeWhile_eq_all_conv)

lemma gitdirMatch_form:
  assumes "\<forall>c \<in> set ws. js_space c" "dot_plus body"
  shows "gitdirMatch (''gitdir:'' @ ws @ body) \<noteq> None"
proof -
  let ?r = "ws @ body"
  have sp: "strip_prefix ''gitdir:'' (''gitdir:'' @ ?r) = Some ?r"
    unfolding strip_prefix_Some ..
  have tw: "takeWhile js_space ?r = ws @ takeWhile js_space body"
    and dw: "dropWhile js_space ?r = dropWhile js_space body"
    using assms(1) by (simp_all add: takeWhile_append2 dropWhile_append2)
  show ?thesis
  proof (cases "dropWhile js_space body = []")
    case False
    have "set (dropWhile js_space body) \<subseteq> set body" by (auto dest: set_dropWhileD)
    with assms(2) False have "dot_plus (dropWhile js_space body)" by (auto simp: dot_plus_def)
    from gitdirMatch_body[OF sp dw False this] show ?thesis by simp
  next
    case True
    then have "takeWhile js_space body = body" by (metis takeWhile_dropWhile_id append_Nil2)
    with tw have tw': "takeWhile js_space ?r = ws @ body" by simp
    from True dw have dw': "dropWhile js_space ?r = []" by simp
    from assms(2) have b: "body \<noteq> []" "\<not> line_terminator (last body)"
      by (auto simp: dot_plus_def)
    then have "ws @ body \<noteq> []" "\<not> line_terminator (last (ws @ body))" by simp_all
    from gitdirMatch_ws[OF sp dw' tw' this] show ?thesis by simp
  qed
qed

text \<open>
  Claim C10. When the \<^verbatim>\<open>.git\<close> entry found above a path is a file that cannot be
  read, or whose trimmed content is not \<^verbatim>\<open>gitdir:\<close>, optional white space and a
  non-empty one-line pointer, \<^verbatim>\<open>detectGitRepo\<close> returns a result (it does not fail):
  a git repository that is not a worktree, rooted at the directory holding that file.
\<close>

theorem detectGitRepo_unparsable_git_file:
  assumes "findGitPath e targetPath = Some (gitPath, True)"
    and "readFileSync e gitPath = None \<or>
         (\<exists>content. readFileSync e gitPath = Some content \<and>
            \<not> (\<exists>ws body. js_trim content = ''gitdir:'' @ ws @ body
                   \<and> (\<forall>c \<in> set ws. js_space c) \<and> dot_plus body))"
  shows "detectGitRepo e targetPath =
           \<lparr>gd_isGitRepo = True, gd_repoRoot = Some (path_dirname gitPath), gd_isWorktree = False,
            gd_mainGitDir = None, gd_gitPath = Some gitPath\<rparr>"
proof -
  from assms(1) have f: "findGitPath_at e (path_resolve (cwd e) targetPath) = Some (gitPath, True)"
    by (simp add: findGitPath_def)
  from assms(2) show ?thesis
  proof
    assume "readFileSync e gitPath = None"
    with f show ?thesis by (simp add: detectGitRepo_def detectGitRepo_at_def regular_repo_def)
  next
    assume "\<exists>content. readFileSync e gitPath = Some content \<and>
            \<not> (\<exists>ws body. js_trim content = ''gitdir:'' @ ws @ body
                   \<and> (\<forall>c \<in> set ws. js_space c) \<and> dot_plus body)"
    then obtain content where c: "readFileSync e gitPath = Some content"
      and n: "\<not> (\<exists>ws body. js_trim content = ''gitdir:'' @ ws @ body
                   \<and> (\<forall>c \<in> set ws. js_space c) \<and> dot_plus body)" by blast
    have "gitdirMatch (js_trim content) = None"
    proof (cases "gitdirMatch (js_trim content)")
      case (Some b)
      from gitdirMatch_Some[OF Some] n show ?thesis by blast
    qed simp
    with f c show ?thesis by (simp add: detectGitRepo_def detectGitRepo_at_def regular_repo_def)
  qed
qed

lemma demo_find_c: "findGitPath demo_env ''/c/x'' = Some ([''c'', ''.git''], True)"
  by code_simp

lemma demo_read_c: "readFileSync demo_env [''c'', ''.git''] = Some ''not a pointer''"
  by code_simp

lemma demo_trim_c: "js_trim ''not a pointer'' = ''not a pointer''"
  by code_simp

theorem detectGitRepo_unparsable_git_file_witness:
  "detectGitRepo demo_env ''/c/x'' =
     \<lparr>gd_isGitRepo = True, gd_repoRoot = Some [''c''], gd_isWorktree = False,
      gd_mainGitDir = None, gd_gitPath = Some [''c'', ''.git'']\<rparr>"
proof -
  have "\<not> (\<exists>ws body. js_trim ''not a pointer'' = ''gitdir:'' @ ws @ body
                   \<and> (\<forall>c \<in> set ws. js_space c) \<and> dot_plus body)"
    unfolding demo_trim_c by simp
  with demo_read_c have "readFileSync demo_env [''c'', ''.git''] = None \<or>
         (\<exists>content. readFileSync demo_env [''c'', ''.git''] = Some content \<and>
            \<not> (\<exists>ws body. js_trim content = ''gitdir:'' @ ws @ body
                   \<and> (\<forall>c \<in> set ws. js_space c) \<and> dot_plus body))" by simp
  from detectGitRepo_unparsable_git_file[OF demo_find_c this]
  show ?thesis by (simp add: path_dirname_def)
qed

subsection \<open>Identity resolution\<close>

lemma normalizeGitUrl_nonempty: "normalizeGitUrl raw = Some u \<Longrightarrow> u \<noteq> [] \<and> raw \<noteq> []"
  by (auto simp: normalizeGitUrl_def Let_def split: if_splits option.splits)

lemma resolveIdentity_at_nongit:
  assumes "\<not> gd_isGitRepo (detectGitRepo_at e p)"
  shows "resolveIdentity_at e w p =
     \<lparr>ri_canonicalId = md5 e (path_str p), ri_remoteUrl = None, ri_mainWorktreePath = None,
      ri_detectedPaths = [path_str p], ri_displayName = path_basename p,
      ri_identitySource = PathHash, ri_isGitRepo = False, ri_isWorktree = False,
      ri_repoRoot = None\<rparr>"
  using assms by (simp add: resolveIdentity_at_def canonicalIdFromPath_def)

lemma resolveIdentity_at_remote:
  assumes "gd_isGitRepo (detectGitRepo_at e p)" "gd_repoRoot (detectGitRepo_at e p) = Some repoRoot"
    and "getRemoteOriginUrl e repoRoot = Some raw" "normalizeGitUrl raw = Some u"
  shows "ri_canonicalId (resolveIdentity_at e w p) = md5 e u
       \<and> ri_identitySource (resolveIdentity_at e w p) = RemoteUrl
       \<and> ri_remoteUrl (resolveIdentity_at e w p) = Some u"
  using assms normalizeGitUrl_nonempty[OF assms(4)]
  by (simp add: resolveIdentity_at_def Let_def canonicalIdFromUrl_def)

lemma resolveIdentity_at_commit:
  assumes "gd_isGitRepo (detectGitRepo_at e p)" "gd_repoRoot (detectGitRepo_at e p) = Some repoRoot"
    and "getRemoteOriginUrl e repoRoot = None \<or> getRemoteOriginUrl e repoRoot = Some []
         \<or> (\<exists>raw. getRemoteOriginUrl e repoRoot = Some raw \<and> normalizeGitUrl raw = None)"
    and "getInitialCommitSha e repoRoot = Some sha" "sha \<noteq> []"
  shows "ri_canonicalId (resolveIdentity_at e w p) = md5 e (''commit:'' @ sha)
       \<and> ri_identitySource (resolveIdentity_at e w p) = InitialCommit"
  using assms
  by (auto simp: resolveIdentity_at_def Let_def canonicalIdFromCommit_def)

lemma resolveIdentity_at_fallback:
  assumes "gd_isGitRepo (detectGitRepo_at e p)" "gd_repoRoot (detectGitRepo_at e p) = Some repoRoot"
    and "getRemoteOriginUrl e repoRoot = None \<or> getRemoteOriginUrl e repoRoot = Some []
         \<or> (\<exists>raw. getRemoteOriginUrl e repoRoot = Some raw \<and> normalizeGitUrl raw = None)"
    and "getInitialCommitSha e repoRoot = None \<or> getInitialCommitSha e repoRoot = Some []"
  shows "ri_canonicalId (resolveIdentity_at e w p) = md5 e (path_str repoRoot)
       \<and> ri_identitySource (resolveIdentity_at e w p) = PathHash
       \<and> ri_isGitRepo (resolveIdentity_at e w p)"
  using assms
  by (auto simp: resolveIdentity_at_def Let_def canonicalIdFromPath_def)

lemma detectGitRepo_at_root: "gd_isGitRepo (detectGitRepo_at e p) \<Longrightarrow> gd_repoRoot (detectGitRepo_at e p) \<noteq> None"
  by (auto simp: detectGitRepo_at_def regular_repo_def Let_def split: option.splits if_splits)

text \<open>
  Claim C2. The canonical ID is derived by the first success: outside a git repository the
  identity is the path hash of the path itself, which is then the only detected path; in a
  repository whose origin normalises to a URL, the hash of that URL (remote-url); else, with
  a root commit, the hash of the SHA prefixed with \<^verbatim>\<open>commit:\<close> (initial-commit); else,
  also when there is no commit at all, the hash of the repository root (path-hash) and no
  error.
\<close>

theorem resolveIdentity_first_success:
  "let g = detectGitRepo e targetPath;
       r = resolveIdentity e targetPath;
       p = path_resolve (cwd e) targetPath
   in (\<not> gd_isGitRepo g \<longrightarrow>
         ri_identitySource r = PathHash \<and> ri_canonicalId r = md5 e (path_str p)
         \<and> ri_detectedPaths r = [path_str p])
    \<and> (gd_isGitRepo g \<longrightarrow>
         (\<exists>repoRoot. gd_repoRoot g = Some repoRoot \<and>
            (case normalizedOrigin e repoRoot of
               Some u \<Rightarrow> ri_identitySource r = RemoteUrl \<and> ri_canonicalId r = md5 e u
             | None \<Rightarrow>
                 (case rootCommit e repoRoot of
                    Some sha \<Rightarrow>
                      ri_identitySource r = InitialCommit
                      \<and> ri_canonicalId r = md5 e (''commit:'' @ sha)
                  | None \<Rightarrow>
                      ri_identitySource r = PathHash
                      \<and> ri_canonicalId r = md5 e (path_str repoRoot) \<and> ri_isGitRepo r))))"
proof -
  let ?p = "path_resolve (cwd e) targetPath"
  let ?g = "detectGitRepo_at e ?p"
  let ?r = "resolveIdentity_at e True ?p"
  have a: "\<not> gd_isGitRepo ?g \<Longrightarrow>
         ri_identitySource ?r = PathHash \<and> ri_canonicalId ?r = md5 e (path_str ?p)
         \<and> ri_detectedPaths ?r = [path_str ?p]"
    by (simp add: resolveIdentity_at_nongit)
  have b: "\<exists>repoRoot. gd_repoRoot ?g = Some repoRoot \<and>
            (case normalizedOrigin e repoRoot of
               Some u \<Rightarrow> ri_identitySource ?r = RemoteUrl \<and> ri_canonicalId ?r = md5 e u
             | None \<Rightarrow>
                 (case rootCommit e repoRoot of
                    Some sha \<Rightarrow>
                      ri_identitySource ?r = InitialCommit
                      \<and> ri_canonicalId ?r = md5 e (''commit:'' @ sha)
                  | None \<Rightarrow>
                      ri_identitySource ?r = PathHash
                      \<and> ri_canonicalId ?r = md5 e (path_str repoRoot) \<and> ri_isGitRepo ?r))"
    if g: "gd_isGitRepo ?g"
  proof -
    from detectGitRepo_at_root[OF g] obtain repoRoot where repoRoot: "gd_repoRoot ?g = Some repoRoot" by blast
    show ?thesis
    proof (cases "normalizedOrigin e repoRoot")
      case (Some u)
      then obtain raw where "getRemoteOriginUrl e repoRoot = Some raw" "normalizeGitUrl raw = Some u"
        by (auto simp: normalizedOrigin_def split: option.splits)
      from resolveIdentity_at_remote[OF g repoRoot this] Some repoRoot show ?thesis by simp
    next
      case None
      then have no: "getRemoteOriginUrl e repoRoot = None \<or> getRemoteOriginUrl e repoRoot = Some []
         \<or> (\<exists>raw. getRemoteOriginUrl e repoRoot = Some raw \<and> normalizeGitUrl raw = None)"
        by (auto simp: normalizedOrigin_def split: option.splits)
      show ?thesis
      proof (cases "rootCommit e repoRoot")
        case (Some sha)
        then have "getInitialCommitSha e repoRoot = Some sha" "sha \<noteq> []"
          by (auto simp: rootCommit_def split: option.splits if_splits)
        from resolveIdentity_at_commit[OF g repoRoot no this] None Some repoRoot show ?thesis by simp
      next
        case N: None
        then have "getInitialCommitSha e repoRoot = None \<or> getInitialCommitSha e repoRoot = Some []"
          by (auto simp: rootCommit_def split: option.splits if_splits)
        from resolveIdentity_at_fallback[OF g repoRoot no this] None N repoRoot show ?thesis by simp
      qed
    qed
  qed
  from a b show ?thesis
    unfolding Let_def detectGitRepo_def resolveIdentity_def by blast
qed

lemma demo_detect:
  "\<not> gd_isGitRepo (detectGitRepo demo_env ''/tmp/p'')"
  "gd_isGitRepo (detectGitRepo demo_env ''/a/main'')"
  "gd_repoRoot (detectGitRepo demo_env ''/a/main'') = Some [''a'', ''main'']"
  "gd_isGitRepo (detectGitRepo demo_env ''/d'')"
  "gd_repoRoot (detectGitRepo demo_env ''/d'') = Some [''d'']"
  "gd_isGitRepo (detectGitRepo demo_env ''/b'')"
  "gd_repoRoot (detectGitRepo demo_env ''/b'') = Some [''b'']"
  by code_simp+

lemma demo_git_facts:
  "normalizedOrigin demo_env [''a'', ''main''] = Some ''github.com/x/y''"
  "normalizedOrigin demo_env [''d''] = None"
  "rootCommit demo_env [''d''] = Some ''0123abcd''"
  "normalizedOrigin demo_env [''b''] = None"
  "rootCommit demo_env [''b''] = None"
  by code_simp+

lemma demo_misc:
  "path_str (path_resolve (cwd demo_env) ''/tmp/p'') = ''/tmp/p''"
  "path_str [''b''] = ''/b''"
  by code_simp+

lemma demo_md5_field: "md5 demo_env = demo_md5"
  by (simp add: demo_env_def)

theorem resolveIdentity_first_success_witness:
  "ri_identitySource (resolveIdentity demo_env ''/tmp/p'') = PathHash
   \<and> ri_detectedPaths (resolveIdentity demo_env ''/tmp/p'') = [''/tmp/p'']
   \<and> ri_identitySource (resolveIdentity demo_env ''/a/main'') = RemoteUrl
   \<and> ri_canonicalId (resolveIdentity demo_env ''/a/main'') = demo_md5 ''github.com/x/y''
   \<and> ri_identitySource (resolveIdentity demo_env ''/d'') = InitialCommit
   \<and> ri_canonicalId (resolveIdentity demo_env ''/d'') = demo_md5 ''commit:0123abcd''
   \<and> ri_identitySource (resolveIdentity demo_env ''/b'') = PathHash
   \<and> ri_canonicalId (resolveIdentity demo_env ''/b'') = demo_md5 ''/b''"
  using resolveIdentity_first_success[of demo_env "''/tmp/p''"]
    resolveIdentity_first_success[of demo_env "''/a/main''"]
    resolveIdentity_first_success[of demo_env "''/d''"]
    resolveIdentity_first_success[of demo_env "''/b''"]
  unfolding Let_def
  by (simp add: demo_detect demo_git_facts demo_misc demo_md5_field)

subsection \<open>Repository registry\<close>

lemma map_of_replace_other:
  "x \<noteq> k \<Longrightarrow> map_of (map (\<lambda>(k', v'). if k' = k then (k', v) else (k', v')) m) x = map_of m x"
  by (induction m) auto

lemma map_of_replace_same:
  "k \<in> fst ` set m \<Longrightarrow> map_of (map (\<lambda>(k', v'). if k' = k then (k', v) else (k', v')) m) k = Some v"
  by (induction m) auto

lemma map_of_js_map_set: "map_of (js_map_set m k v) = (map_of m)(k \<mapsto> v)"
proof (cases "k \<in> fst ` set m")
  case False
  then have "map_of m k = None" by (simp add: map_of_eq_None_iff)
  then have "map_of (m @ [(k, v)]) = (map_of m)(k \<mapsto> v)"
    by (auto simp: fun_eq_iff map_add_def split: option.splits)
  with False show ?thesis by (simp add: js_map_set_def)
next
  case True
  then show ?thesis
    by (auto simp: js_map_set_def fun_eq_iff map_of_replace_other map_of_replace_same)
qed

lemma map_of_js_map_delete: "map_of (js_map_delete m k) = (map_of m)(k := None)"
  by (induction m) (auto simp: js_map_delete_def fun_eq_iff)

lemma map_of_foldl_delete:
  "map_of (foldl js_map_delete m ks) x = (if x \<in> set ks then None else map_of m x)"
  by (induction ks arbitrary: m) (auto simp: map_of_js_map_delete)

lemma registry_invI:
  assumes "\<And>p c. map_of (pathToCanonicalId reg) p = Some c \<Longrightarrow>
             c = ri_canonicalId (resolveIdentity_at e True p)"
    and "\<And>p c. map_of (pathToCanonicalId reg) p = Some c \<Longrightarrow>
             \<exists>r. map_of (repositories reg) c = Some r \<and> p \<in> set (rr_knownPaths r)"
    and "\<And>c r p. map_of (repositories reg) c = Some r \<Longrightarrow> p \<in> set (rr_knownPaths r) \<Longrightarrow>
             map_of (pathToCanonicalId reg) p = Some c"
  shows "registry_inv e reg"
  unfolding registry_inv_def using assms by blast

lemma registry_inv_id:
  "registry_inv e reg \<Longrightarrow> map_of (pathToCanonicalId reg) p = Some c \<Longrightarrow>
     c = ri_canonicalId (resolveIdentity_at e True p)"
  unfolding registry_inv_def by blast

lemma registry_inv_rec:
  "registry_inv e reg \<Longrightarrow> map_of (pathToCanonicalId reg) p = Some c \<Longrightarrow>
     \<exists>r. map_of (repositories reg) c = Some r \<and> p \<in> set (rr_knownPaths r)"
  unfolding registry_inv_def by blast

lemma registry_inv_idx:
  "registry_inv e reg \<Longrightarrow> map_of (repositories reg) c = Some r \<Longrightarrow> p \<in> set (rr_knownPaths r) \<Longrightarrow>
     map_of (pathToCanonicalId reg) p = Some c"
  unfolding registry_inv_def by blast

lemma registry_inv_empty: "registry_inv e empty_registry"
  by (simp add: registry_inv_def empty_registry_def)

lemma registry_inv_clear: "registry_inv e (clear reg)"
  by (simp add: registry_inv_def clear_def)

lemma registry_inv_same_paths:
  assumes inv: "registry_inv e reg" and c: "map_of (repositories reg) c = Some r"
    and k: "rr_knownPaths r' = rr_knownPaths r"
  shows "registry_inv e (reg\<lparr>repositories := js_map_set (repositories reg) c r'\<rparr>)"
proof (rule registry_invI)
  let ?reg = "reg\<lparr>repositories := js_map_set (repositories reg) c r'\<rparr>"
  have M: "map_of (repositories ?reg) = (map_of (repositories reg))(c \<mapsto> r')"
    by (simp add: map_of_js_map_set)
  have I: "pathToCanonicalId ?reg = pathToCanonicalId reg" by simp
  fix p d assume a: "map_of (pathToCanonicalId ?reg) p = Some d"
  then have a': "map_of (pathToCanonicalId reg) p = Some d" by simp
  show "d = ri_canonicalId (resolveIdentity_at e True p)"
    by (rule registry_inv_id[OF inv a'])
  from registry_inv_rec[OF inv a'] obtain r0 where
    r0: "map_of (repositories reg) d = Some r0" "p \<in> set (rr_knownPaths r0)" by blast
  show "\<exists>r. map_of (repositories ?reg) d = Some r \<and> p \<in> set (rr_knownPaths r)"
  proof (cases "d = c")
    case True with r0 c k show ?thesis unfolding M by simp
  next
    case False with r0 show ?thesis unfolding M by simp
  qed
next
  let ?reg = "reg\<lparr>repositories := js_map_set (repositories reg) c r'\<rparr>"
  have M: "map_of (repositories ?reg) = (map_of (repositories reg))(c \<mapsto> r')"
    by (simp add: map_of_js_map_set)
  fix d r0 p assume a: "map_of (repositories ?reg) d = Some r0" "p \<in> set (rr_knownPaths r0)"
  have "map_of (pathToCanonicalId reg) p = Some d"
  proof (cases "d = c")
    case True
    with a(1) have "r0 = r'" unfolding M by simp
    with a(2) k have "p \<in> set (rr_knownPaths r)" by simp
    from registry_inv_idx[OF inv c this] True show ?thesis by simp
  next
    case False
    with a(1) have "map_of (repositories reg) d = Some r0" unfolding M by simp
    from registry_inv_idx[OF inv this a(2)] show ?thesis .
  qed
  then show "map_of (pathToCanonicalId ?reg) p = Some d" by simp
qed

lemma registry_inv_markIndexed: "registry_inv e reg \<Longrightarrow> registry_inv e (markIndexed now reg c name files chunks)"
  by (cases "map_of (repositories reg) c")
     (simp_all add: markIndexed_def registry_inv_same_paths)

lemma registry_inv_markNotIndexed: "registry_inv e reg \<Longrightarrow> registry_inv e (markNotIndexed reg c)"
  by (cases "map_of (repositories reg) c")
     (simp_all add: markNotIndexed_def registry_inv_same_paths)

lemma registry_inv_removeByCanonicalId:
  assumes inv: "registry_inv e reg"
  shows "registry_inv e (snd (removeByCanonicalId reg c))"
proof (cases "map_of (repositories reg) c")
  case None then show ?thesis using assms by (simp add: removeByCanonicalId_def)
next
  case (Some rec)
  let ?reg = "\<lparr>repositories = js_map_delete (repositories reg) c,
          pathToCanonicalId = foldl js_map_delete (pathToCanonicalId reg) (rr_knownPaths rec)\<rparr>"
  have M: "map_of (repositories ?reg) = (map_of (repositories reg))(c := None)"
    by (simp add: map_of_js_map_delete)
  have I: "\<And>x. map_of (pathToCanonicalId ?reg) x =
             (if x \<in> set (rr_knownPaths rec) then None else map_of (pathToCanonicalId reg) x)"
    by (simp add: map_of_foldl_delete)
  have "registry_inv e ?reg"
  proof (rule registry_invI)
    fix p d assume a: "map_of (pathToCanonicalId ?reg) p = Some d"
    then have np: "p \<notin> set (rr_knownPaths rec)" and a': "map_of (pathToCanonicalId reg) p = Some d"
      unfolding I by (auto split: if_splits)
    show "d = ri_canonicalId (resolveIdentity_at e True p)"
      by (rule registry_inv_id[OF inv a'])
    from registry_inv_rec[OF inv a'] obtain r0 where
      r0: "map_of (repositories reg) d = Some r0" "p \<in> set (rr_knownPaths r0)" by blast
    with np Some have "d \<noteq> c" by auto
    with r0 show "\<exists>r. map_of (repositories ?reg) d = Some r \<and> p \<in> set (rr_knownPaths r)"
      unfolding M by simp
  next
    fix d r0 p assume a: "map_of (repositories ?reg) d = Some r0" "p \<in> set (rr_knownPaths r0)"
    then have dc: "d \<noteq> c" and r0: "map_of (repositories reg) d = Some r0"
      unfolding M by (auto split: if_splits)
    from registry_inv_idx[OF inv r0 a(2)] have i: "map_of (pathToCanonicalId reg) p = Some d" .
    have "p \<notin> set (rr_knownPaths rec)"
    proof
      assume "p \<in> set (rr_knownPaths rec)"
      from registry_inv_idx[OF inv Some this] i dc show False by simp
    qed
    with i show "map_of (pathToCanonicalId ?reg) p = Some d" unfolding I by simp
  qed
  with Some show ?thesis by (simp add: removeByCanonicalId_def)
qed

lemma register_maps:
  assumes np: "np = path_resolve (cwd e) targetPath"
    and c0: "c0 = ri_canonicalId (resolveIdentity_at e True np)"
    and reg': "reg' = snd (register e now reg targetPath options)"
    and rec': "rec' = fst (register e now reg targetPath options)"
  shows "map_of (repositories reg') = (map_of (repositories reg))(c0 \<mapsto> rec')
      \<and> set (rr_knownPaths rec') =
          insert np (case map_of (repositories reg) c0 of None \<Rightarrow> {} | Some r \<Rightarrow> set (rr_knownPaths r))
      \<and> (map_of (pathToCanonicalId reg') = (map_of (pathToCanonicalId reg))(np \<mapsto> c0)
         \<or> (map_of (pathToCanonicalId reg') = map_of (pathToCanonicalId reg)
            \<and> (\<exists>r. map_of (repositories reg) c0 = Some r \<and> np \<in> set (rr_knownPaths r))))"
proof (cases "map_of (repositories reg) c0")
  case None
  then show ?thesis unfolding reg' rec' register_def Let_def np[symmetric] c0[symmetric]
    by (simp add: map_of_js_map_set)
next
  case (Some r)
  show ?thesis
  proof (cases "np \<in> set (rr_knownPaths r)")
    case True
    with Some show ?thesis unfolding reg' rec' register_def Let_def np[symmetric] c0[symmetric]
      by (simp add: map_of_js_map_set insert_absorb split: option.split)
  next
    case False
    with Some show ?thesis unfolding reg' rec' register_def Let_def np[symmetric] c0[symmetric]
      by (simp add: map_of_js_map_set split: option.split)
  qed
qed

lemma registry_inv_register:
  assumes inv: "registry_inv e reg"
  shows "registry_inv e (snd (register e now reg targetPath options))"
proof -
  define np where "np = path_resolve (cwd e) targetPath"
  define c0 where "c0 = ri_canonicalId (resolveIdentity_at e True np)"
  define reg' where "reg' = snd (register e now reg targetPath options)"
  let ?M = "map_of (repositories reg)" and ?I = "map_of (pathToCanonicalId reg)"
  define rec' where "rec' = fst (register e now reg targetPath options)"
  note rm = register_maps[OF np_def c0_def reg'_def rec'_def]
  have M: "map_of (repositories reg') = ?M(c0 \<mapsto> rec')"
    using rm by simp
  have K: "set (rr_knownPaths rec') = insert np (case ?M c0 of None \<Rightarrow> {} | Some r \<Rightarrow> set (rr_knownPaths r))"
    using rm by simp
  have I: "map_of (pathToCanonicalId reg') = ?I(np \<mapsto> c0)
         \<or> (map_of (pathToCanonicalId reg') = ?I \<and> (\<exists>r. ?M c0 = Some r \<and> np \<in> set (rr_knownPaths r)))"
    using rm by simp
  have Inp: "map_of (pathToCanonicalId reg') np = Some c0"
    using I registry_inv_idx[OF inv] by auto
  have Iother: "map_of (pathToCanonicalId reg') p = ?I p" if "p \<noteq> np" for p
    using I that by auto
  have "registry_inv e reg'"
  proof (rule registry_invI)
    fix p d assume a: "map_of (pathToCanonicalId reg') p = Some d"
    show "d = ri_canonicalId (resolveIdentity_at e True p)"
    proof (cases "p = np")
      case True with a Inp show ?thesis by (simp add: c0_def)
    next
      case False with a Iother have "?I p = Some d" by simp
      then show ?thesis by (rule registry_inv_id[OF inv])
    qed
    show "\<exists>r. map_of (repositories reg') d = Some r \<and> p \<in> set (rr_knownPaths r)"
    proof (cases "p = np")
      case True
      with a Inp have "d = c0" by simp
      with True K show ?thesis unfolding M by simp
    next
      case False with a Iother have "?I p = Some d" by simp
      from registry_inv_rec[OF inv this] obtain r0 where
        r0: "?M d = Some r0" "p \<in> set (rr_knownPaths r0)" by blast
      show ?thesis
      proof (cases "d = c0")
        case True with r0 K show ?thesis unfolding M by simp
      next
        case False with r0 show ?thesis unfolding M by simp
      qed
    qed
  next
    fix d r0 p assume a: "map_of (repositories reg') d = Some r0" "p \<in> set (rr_knownPaths r0)"
    show "map_of (pathToCanonicalId reg') p = Some d"
    proof (cases "d = c0")
      case True
      with a(1) have "r0 = rec'" unfolding M by simp
      with a(2) K have "p = np \<or> (\<exists>r. ?M c0 = Some r \<and> p \<in> set (rr_knownPaths r))"
        by (auto split: option.splits)
      then show ?thesis
      proof
        assume "p = np" with Inp True show ?thesis by simp
      next
        assume "\<exists>r. ?M c0 = Some r \<and> p \<in> set (rr_knownPaths r)"
        then obtain r where "?M c0 = Some r" "p \<in> set (rr_knownPaths r)" by blast
        from registry_inv_idx[OF inv this] have i: "?I p = Some c0" .
        show ?thesis
        proof (cases "p = np")
          case True with Inp \<open>d = c0\<close> show ?thesis by simp
        next
          case False with Iother i \<open>d = c0\<close> show ?thesis by simp
        qed
      qed
    next
      case False
      with a(1) have r0: "?M d = Some r0" unfolding M by simp
      from registry_inv_idx[OF inv r0 a(2)] have i: "?I p = Some d" .
      have "p \<noteq> np"
      proof
        assume "p = np"
        with registry_inv_id[OF inv i] have "d = c0" by (simp add: c0_def)
        with False show False by simp
      qed
      with Iother i show ?thesis by simp
    qed
  qed
  then show ?thesis by (simp add: reg'_def)
qed

lemma registry_inv_removePath:
  assumes inv: "registry_inv e reg"
  shows "registry_inv e (snd (removePath e reg targetPath))"
proof -
  define np where "np = path_resolve (cwd e) targetPath"
  let ?M = "map_of (repositories reg)" and ?I = "map_of (pathToCanonicalId reg)"
  show ?thesis
  proof (cases "?I np")
    case None
    then show ?thesis using inv by (simp add: removePath_def np_def[symmetric])
  next
    case (Some c)
    from registry_inv_rec[OF inv Some] obtain rec where
      rec: "?M c = Some rec" "np \<in> set (rr_knownPaths rec)" by blast
    define ks where "ks = filter (\<lambda>p. p \<noteq> np) (rr_knownPaths rec)"
    define rec1 where "rec1 = rec\<lparr>rr_knownPaths := ks,
                                   rr_worktrees := filter (\<lambda>p. p \<noteq> np) (rr_worktrees rec)\<rparr>"
    define reg' where "reg' = snd (removePath e reg targetPath)"
    have k1: "rr_knownPaths rec1 = ks" by (simp add: rec1_def)
    show ?thesis
    proof (cases "c = []")
      case True
      with Some show ?thesis using inv by (simp add: removePath_def np_def[symmetric])
    next
      case False
      have I: "map_of (pathToCanonicalId reg') = ?I(np := None)"
        using Some False rec unfolding reg'_def removePath_def Let_def np_def[symmetric]
        by (simp add: map_of_js_map_delete)
      have M: "map_of (repositories reg') = (if ks = [] then ?M(c := None) else ?M(c \<mapsto> rec1))"
        using Some False rec unfolding reg'_def removePath_def Let_def np_def[symmetric]
        by (simp add: map_of_js_map_delete map_of_js_map_set ks_def rec1_def)
      have "registry_inv e reg'"
      proof (rule registry_invI)
        fix p d assume a: "map_of (pathToCanonicalId reg') p = Some d"
        then have pn: "p \<noteq> np" and a': "?I p = Some d" unfolding I by (auto split: if_splits)
        show "d = ri_canonicalId (resolveIdentity_at e True p)"
          by (rule registry_inv_id[OF inv a'])
        from registry_inv_rec[OF inv a'] obtain r0 where
          r0: "?M d = Some r0" "p \<in> set (rr_knownPaths r0)" by blast
        show "\<exists>r. map_of (repositories reg') d = Some r \<and> p \<in> set (rr_knownPaths r)"
        proof (cases "d = c")
          case True
          with r0 rec have "p \<in> set (rr_knownPaths rec)" by simp
          with pn have "p \<in> set ks" by (simp add: ks_def)
          then have "ks \<noteq> []" by auto
          with True \<open>p \<in> set ks\<close> k1 show ?thesis unfolding M by simp
        next
          case False with r0 show ?thesis unfolding M by simp
        qed
      next
        fix d r0 p assume a: "map_of (repositories reg') d = Some r0" "p \<in> set (rr_knownPaths r0)"
        have "?I p = Some d \<and> p \<noteq> np"
        proof (cases "d = c")
          case True
          with a(1) have "r0 = rec1" unfolding M by (auto split: if_splits)
          with a(2) k1 have "p \<in> set (rr_knownPaths rec)" "p \<noteq> np" by (auto simp: ks_def)
          with registry_inv_idx[OF inv rec(1)] True show ?thesis by simp
        next
          case False
          with a(1) have r0: "?M d = Some r0" unfolding M by (auto split: if_splits)
          from registry_inv_idx[OF inv r0 a(2)] have i: "?I p = Some d" .
          with Some False show ?thesis by auto
        qed
        then show "map_of (pathToCanonicalId reg') p = Some d" unfolding I by simp
      qed
      then show ?thesis by (simp add: reg'_def)
    qed
  qed
qed

lemma reachable_inv: "reachable e reg \<Longrightarrow> registry_inv e reg"
proof (induction rule: reachable.induct)
  case reach_empty show ?case by (rule registry_inv_empty)
next
  case (reach_register reg now targetPath options)
  then show ?case by (simp add: registry_inv_register)
next
  case (reach_markIndexed reg now c name files chunks)
  then show ?case by (simp add: registry_inv_markIndexed)
next
  case (reach_markNotIndexed reg c)
  then show ?case by (simp add: registry_inv_markNotIndexed)
next
  case (reach_removePath reg targetPath)
  then show ?case by (simp add: registry_inv_removePath)
next
  case (reach_removeByCanonicalId reg c)
  then show ?case by (simp add: registry_inv_removeByCanonicalId)
next
  case (reach_clear reg)
  show ?case by (rule registry_inv_clear)
qed

lemma canonicalId_nonempty:
  assumes "md5_digest e"
  shows "ri_canonicalId (resolveIdentity_at e w p) \<noteq> []"
proof -
  have ne: "\<And>s. md5 e s \<noteq> []" using assms unfolding md5_digest_def
    by (metis length_0_conv zero_neq_numeral)
  show ?thesis
    unfolding resolveIdentity_at_def Let_def canonicalIdFromPath_def canonicalIdFromUrl_def
      canonicalIdFromCommit_def
    by (auto simp: ne split: option.splits)
qed

text \<open>
  Claim C1. In a registry built by the public operations, when a path \<open>p1\<close> is registered
  and \<open>p2\<close> resolves to the same canonical ID, \<^verbatim>\<open>resolve(p2)\<close> returns
  \<^verbatim>\<open>found = true\<close> with the record stored under that ID,
  \<^verbatim>\<open>isNewPathForExistingRepo\<close> is true exactly when \<open>p2\<close> itself is not registered
  (the canonical ID being registered), and the number of repositories is unchanged.
\<close>

theorem resolve_same_repository:
  assumes reach: "reachable e reg" and md5: "md5_digest e"
    and p1: "isRegistered e reg p1"
    and same: "canonicalIdOf e p2 = canonicalIdOf e p1"
  shows "\<exists>rcd reg'.
           map_of (repositories reg) (canonicalIdOf e p1) = Some rcd
         \<and> resolve e reg p2 =
             Inr (\<lparr>res_found = True, res_record = Some rcd,
                   res_identity = resolveIdentity e p2,
                   res_isNewPathForExistingRepo =
                     (\<not> isRegistered e reg p2
                      \<and> map_of (repositories reg) (canonicalIdOf e p2) \<noteq> None),
                   res_primaryPath = first_elem (rr_knownPaths rcd)\<rparr>, reg')
         \<and> registry_size reg' = registry_size reg"
proof -
  define n1 where "n1 = path_resolve (cwd e) p1"
  define n2 where "n2 = path_resolve (cwd e) p2"
  define c where "c = ri_canonicalId (resolveIdentity_at e True n1)"
  let ?M = "map_of (repositories reg)" and ?I = "map_of (pathToCanonicalId reg)"
  note inv = reachable_inv[OF reach]
  have c1: "canonicalIdOf e p1 = c" by (simp add: canonicalIdOf_def resolveIdentity_def c_def n1_def)
  have c2: "ri_canonicalId (resolveIdentity_at e True n2) = c"
    using same c1 by (simp add: canonicalIdOf_def resolveIdentity_def n2_def)
  have id2: "resolveIdentity e p2 = resolveIdentity_at e True n2"
    by (simp add: resolveIdentity_def n2_def)
  from p1 obtain d where d: "?I n1 = Some d" by (auto simp: isRegistered_def n1_def)
  from registry_inv_id[OF inv d] have "d = c" by (simp add: c_def)
  with registry_inv_rec[OF inv d] obtain rcd where rcd: "?M c = Some rcd" by blast
  have cne: "c \<noteq> []" unfolding c_def by (rule canonicalId_nonempty[OF md5])
  have r2: "isRegistered e reg p2 \<longleftrightarrow> ?I n2 \<noteq> None" by (simp add: isRegistered_def n2_def)
  have "resolve e reg p2 =
             Inr (\<lparr>res_found = True, res_record = Some rcd,
                   res_identity = resolveIdentity e p2,
                   res_isNewPathForExistingRepo =
                     (\<not> isRegistered e reg p2 \<and> ?M (canonicalIdOf e p2) \<noteq> None),
                   res_primaryPath = first_elem (rr_knownPaths rcd)\<rparr>, reg)"
  proof (cases "?I n2")
    case None
    with rcd c2 show ?thesis
      unfolding resolve_def Let_def n2_def[symmetric] id2 r2 same c1
      by simp
  next
    case (Some d2)
    from registry_inv_id[OF inv Some] c2 have "d2 = c" by simp
    with Some rcd cne show ?thesis
      unfolding resolve_def Let_def n2_def[symmetric] id2 r2 same c1
      by simp
  qed
  with rcd c1 show ?thesis by blast
qed

lemma demo_md5_digest: "md5_digest demo_env"
  by (auto simp: md5_digest_def demo_env_def demo_md5_def min_def)

lemma demo_registry_reachable: "reachable demo_env demo_registry"
  unfolding demo_registry_def by (rule reach_register[OF reach_empty])

lemma demo_paths:
  "path_resolve (cwd demo_env) ''/a/main'' = [''a'', ''main'']"
  "path_resolve (cwd demo_env) ''/a/feat'' = [''a'', ''feat'']"
  by code_simp+

lemma demo_identities:
  "resolveIdentity_at demo_env True [''a'', ''main''] =
     \<lparr>ri_canonicalId = ''github.com/x/y000000000000000000'',
      ri_remoteUrl = Some ''github.com/x/y'', ri_mainWorktreePath = None,
      ri_detectedPaths = [''/a/main''], ri_displayName = ''y'',
      ri_identitySource = RemoteUrl, ri_isGitRepo = True,
      ri_isWorktree = False, ri_repoRoot = Some ''/a/main''\<rparr>"
  "resolveIdentity_at demo_env True [''a'', ''feat''] =
     \<lparr>ri_canonicalId = ''github.com/x/y000000000000000000'',
      ri_remoteUrl = Some ''github.com/x/y'', ri_mainWorktreePath = Some ''/a/main'',
      ri_detectedPaths = [''/a/feat'', ''/a/main''], ri_displayName = ''y'',
      ri_identitySource = RemoteUrl, ri_isGitRepo = True,
      ri_isWorktree = True, ri_repoRoot = Some ''/a/feat''\<rparr>"
  by code_simp+

lemma demo_registry_eq:
  "demo_registry =
     \<lparr>repositories =
        [(''github.com/x/y000000000000000000'',
          \<lparr>rr_canonicalId = ''github.com/x/y000000000000000000'',
           rr_displayName = ''y'', rr_remoteUrl = Some ''github.com/x/y'',
           rr_identitySource = RemoteUrl, rr_knownPaths = [[''a'', ''main'']],
           rr_worktrees = [], rr_isIndexed = True,
           rr_collectionName = Some ''hybrid_code_chunks_0123456789ab'',
           rr_lastIndexed = Some ''2026-01-01T00:00:00.000Z'',
           rr_indexedFiles = Some 3, rr_totalChunks = Some 9\<rparr>)],
      pathToCanonicalId = [([''a'', ''main''], ''github.com/x/y000000000000000000'')]\<rparr>"
  unfolding demo_registry_def register_def demo_paths Let_def demo_identities
  by (simp add: empty_registry_def js_map_set_def demo_options_def)

lemma demo_registry_facts:
  "isRegistered demo_env demo_registry ''/a/main''"
  "\<not> isRegistered demo_env demo_registry ''/a/feat''"
  "canonicalIdOf demo_env ''/a/feat'' = canonicalIdOf demo_env ''/a/main''"
  "registry_size demo_registry = 1"
  "map_of (repositories demo_registry) (canonicalIdOf demo_env ''/a/feat'') \<noteq> None"
  unfolding isRegistered_def canonicalIdOf_def resolveIdentity_def demo_paths demo_identities
    demo_registry_eq registry_size_def
  by simp_all

theorem resolve_same_repository_witness:
  "\<exists>res reg'. resolve demo_env demo_registry ''/a/feat'' = Inr (res, reg')
      \<and> res_found res \<and> res_isNewPathForExistingRepo res \<and> registry_size reg' = 1"
  using resolve_same_repository[OF demo_registry_reachable demo_md5_digest
      demo_registry_facts(1) demo_registry_facts(3)]
  by (auto simp: demo_registry_facts)

subsection \<open>Collection names\<close>

lemma find_findIndex_None: "findIndex P xs = None \<longleftrightarrow> (\<forall>x \<in> set xs. \<not> P x)"
  by (induction xs) auto

lemma findIndex_Some:
  "findIndex P xs = Some i \<Longrightarrow> i < length xs \<and> P (xs ! i) \<and> (\<forall>j < i. \<not> P (xs ! j))"
proof (induction xs arbitrary: i)
  case Nil then show ?case by simp
next
  case (Cons x xs)
  show ?case
  proof (cases "P x")
    case True with Cons.prems show ?thesis by simp
  next
    case False
    with Cons.prems obtain k where k: "findIndex P xs = Some k" "i = Suc k" by auto
    from Cons.IH[OF k(1)] False k(2) show ?thesis
      by (auto simp: less_Suc_eq_0_disj)
  qed
qed

lemma find_update_first:
  assumes "i < length xs" "\<forall>j < i. \<not> Q (xs ! j)" "Q y"
  shows "find Q (xs[i := y]) = Some y"
  using assms
proof (induction xs arbitrary: i)
  case Nil then show ?case by simp
next
  case (Cons x xs)
  show ?case
  proof (cases i)
    case 0 with Cons.prems show ?thesis by simp
  next
    case (Suc k)
    with Cons.prems have "\<not> Q x" by auto
    moreover from Cons.prems Suc have "k < length xs" "\<forall>j < k. \<not> Q (xs ! j)" by auto
    ultimately show ?thesis using Cons.IH[of k] Cons.prems(3) Suc by simp
  qed
qed

lemma find_append_new:
  assumes "\<forall>x \<in> set xs. \<not> Q x" "Q y"
  shows "find Q (xs @ [y]) = Some y"
  using assms by (induction xs) auto

lemma addMigrationMapping_find:
  "\<exists>m. findMappingByLegacyName (addMigrationMapping now st old new c p) old = Some m
       \<and> cm_oldName m = old \<and> cm_newName m = new \<and> cm_canonicalId m = c \<and> cm_path m = p
       \<and> cm_createdAt m = now \<and> \<not> cm_migrated m"
proof (cases "findIndex (\<lambda>m. cm_oldName m = old \<or> cm_path m = p) (ms_mappings st)")
  case None
  then have "\<forall>x \<in> set (ms_mappings st). \<not> cm_oldName x = old"
    by (auto simp: find_findIndex_None)
  from find_append_new[of "ms_mappings st" "\<lambda>m. cm_oldName m = old", OF this] None
  show ?thesis
    by (simp add: addMigrationMapping_def findMappingByLegacyName_def)
next
  case (Some i)
  from findIndex_Some[OF Some] have i: "i < length (ms_mappings st)"
    and before: "\<forall>j < i. \<not> cm_oldName (ms_mappings st ! j) = old" by auto
  from find_update_first[of i "ms_mappings st" "\<lambda>m. cm_oldName m = old", OF i before] Some
  show ?thesis
    by (simp add: addMigrationMapping_def findMappingByLegacyName_def)
qed

lemma saveMigrationState_mappings:
  "ms_mappings (mg_state (saveMigrationState now oc mg)) = ms_mappings (mg_state mg)"
  "mg_existingCollections (saveMigrationState now oc mg) = mg_existingCollections mg"
  by (cases oc; simp add: saveMigrationState_def)+

lemma legacy_neq_canonical:
  assumes "md5_digest e"
  shows "generateLegacyCollectionName e p h \<noteq> generateCanonicalCollectionName e c h"
proof
  assume eq: "generateLegacyCollectionName e p h = generateCanonicalCollectionName e c h"
  have l: "\<And>s. length (md5 e s) = 32" using assms by (simp add: md5_digest_def)
  from eq have "length (generateLegacyCollectionName e p h) = length (generateCanonicalCollectionName e c h)"
    by simp
  then show False
    by (simp add: generateLegacyCollectionName_def generateCanonicalCollectionName_def Let_def l)
qed

text \<open>
  Claim C4. With the current set of existing collections, \<^verbatim>\<open>resolveCollectionName\<close>
  returns the legacy name \<^verbatim>\<open>[hybrid_]code_chunks_<md5(absolutePath)[0..8]>\<close> with
  \<^verbatim>\<open>isLegacy = true\<close>, and records a migration mapping to the canonical name, exactly
  when the legacy name is in the set; otherwise it returns the canonical name
  \<^verbatim>\<open>[hybrid_]code_chunks_<md5(canonicalId)[0..12]>\<close> with \<^verbatim>\<open>isLegacy = false\<close> and
  leaves the migrator as it was. The set of existing collections is not changed, and any
  call with the same set returns the same name.
\<close>

theorem resolveCollectionName_policy:
  assumes md5: "md5_digest e"
  shows "let legacy = collection_prefix isHybrid @ ''_''
                        @ take 8 (md5 e (path_str (path_resolve (cwd e) codebasePath)));
             canonical = collection_prefix isHybrid @ ''_''
                        @ take 12 (md5 e (canonicalIdOf e codebasePath));
             (res, mg') = resolveCollectionName e now outcome mg codebasePath isHybrid
         in (legacy \<in> set (mg_existingCollections mg) \<longrightarrow>
               cn_collectionName res = legacy \<and> cn_isLegacy res
               \<and> (\<exists>m. findMappingByLegacyName (mg_state mg') legacy = Some m
                      \<and> cm_newName m = canonical
                      \<and> cm_canonicalId m = canonicalIdOf e codebasePath
                      \<and> cm_path m = path_resolve (cwd e) codebasePath
                      \<and> \<not> cm_migrated m))
          \<and> (legacy \<notin> set (mg_existingCollections mg) \<longrightarrow>
               cn_collectionName res = canonical \<and> \<not> cn_isLegacy res \<and> mg' = mg)
          \<and> (cn_collectionName res = legacy \<longleftrightarrow> legacy \<in> set (mg_existingCollections mg))
          \<and> mg_existingCollections mg' = mg_existingCollections mg
          \<and> (\<forall>now2 outcome2 mg2.
                set (mg_existingCollections mg2) = set (mg_existingCollections mg) \<longrightarrow>
                cn_collectionName (fst (resolveCollectionName e now2 outcome2 mg2 codebasePath isHybrid))
                  = cn_collectionName res)"
proof -
  define legacy where "legacy = generateLegacyCollectionName e codebasePath isHybrid"
  define cid where "cid = ri_canonicalId (resolveIdentity e codebasePath)"
  define canonical where "canonical = generateCanonicalCollectionName e cid isHybrid"
  define np where "np = path_resolve (cwd e) codebasePath"
  have names: "generateCollectionNames e codebasePath isHybrid = (legacy, canonical, resolveIdentity e codebasePath)"
    by (simp add: generateCollectionNames_def Let_def legacy_def canonical_def cid_def)
  have l: "collection_prefix isHybrid @ ''_''
             @ take 8 (md5 e (path_str (path_resolve (cwd e) codebasePath))) = legacy"
    by (simp add: legacy_def generateLegacyCollectionName_def Let_def)
  have c: "collection_prefix isHybrid @ ''_''
             @ take 12 (md5 e (canonicalIdOf e codebasePath)) = canonical"
    by (simp add: canonical_def cid_def canonicalIdOf_def generateCanonicalCollectionName_def Let_def)
  have ne: "legacy \<noteq> canonical"
    unfolding legacy_def canonical_def by (rule legacy_neq_canonical[OF md5])
  have name: "cn_collectionName (fst (resolveCollectionName e n o' m codebasePath isHybrid))
                = (if legacy \<in> set (mg_existingCollections m) then legacy else canonical)"
    for n o' m
    by (simp add: resolveCollectionName_def names hasCollection_def Let_def)
  obtain res mg' where r: "resolveCollectionName e now outcome mg codebasePath isHybrid = (res, mg')"
    by (cases "resolveCollectionName e now outcome mg codebasePath isHybrid")
  have n0: "cn_collectionName res = (if legacy \<in> set (mg_existingCollections mg) then legacy else canonical)"
    using name[of now outcome mg] r by simp
  have A: "cn_collectionName res = legacy \<and> cn_isLegacy res
         \<and> (\<exists>m. findMappingByLegacyName (mg_state mg') legacy = Some m
                      \<and> cm_newName m = canonical
                      \<and> cm_canonicalId m = canonicalIdOf e codebasePath
                      \<and> cm_path m = path_resolve (cwd e) codebasePath
                      \<and> \<not> cm_migrated m)"
    if ex: "legacy \<in> set (mg_existingCollections mg)"
  proof -
    let ?st = "addMigrationMapping now (mg_state mg) legacy canonical cid np"
    from r ex have res: "cn_collectionName res = legacy" "cn_isLegacy res"
      and mg': "mg' = saveMigrationState now outcome (mg\<lparr>mg_state := ?st\<rparr>)"
      by (auto simp: resolveCollectionName_def names hasCollection_def Let_def cid_def np_def)
    have "findMappingByLegacyName (mg_state mg') legacy = findMappingByLegacyName ?st legacy"
      unfolding mg' findMappingByLegacyName_def by (simp add: saveMigrationState_mappings)
    with addMigrationMapping_find[of now "mg_state mg" legacy canonical cid np] res
    show ?thesis by (auto simp: canonicalIdOf_def cid_def np_def)
  qed
  have B: "cn_collectionName res = canonical \<and> \<not> cn_isLegacy res \<and> mg' = mg"
    if nex: "legacy \<notin> set (mg_existingCollections mg)"
    using r nex by (auto simp: resolveCollectionName_def names hasCollection_def Let_def)
  have C: "mg_existingCollections mg' = mg_existingCollections mg"
    using r
    by (auto simp: resolveCollectionName_def names hasCollection_def Let_def
          saveMigrationState_mappings split: if_splits)
  have D: "cn_collectionName (fst (resolveCollectionName e now2 outcome2 mg2 codebasePath isHybrid))
                  = cn_collectionName res"
    if "set (mg_existingCollections mg2) = set (mg_existingCollections mg)" for now2 outcome2 mg2
    using that n0 name[of now2 outcome2 mg2] by simp
  have E: "cn_collectionName res = legacy \<longleftrightarrow> legacy \<in> set (mg_existingCollections mg)"
    using n0 ne by auto
  show ?thesis
    unfolding l c Let_def r prod.case using A B C D E by blast
qed

lemma demo_migrator_facts:
  "collection_prefix True @ ''_'' @ take 8 (md5 demo_env (path_str (path_resolve (cwd demo_env) ''/tmp/p'')))
     = ''hybrid_code_chunks_/tmp/p00''"
  "mg_existingCollections demo_migrator = [''hybrid_code_chunks_/tmp/p00'']"
  by code_simp+

theorem resolveCollectionName_policy_witness:
  "cn_collectionName (fst (resolveCollectionName demo_env ''2026-01-02T00:00:00.000Z'' WriteOk
       demo_migrator ''/tmp/p'' True))
     = ''hybrid_code_chunks_/tmp/p00''
   \<and> cn_isLegacy (fst (resolveCollectionName demo_env ''2026-01-02T00:00:00.000Z'' WriteOk
       demo_migrator ''/tmp/p'' True))"
  using resolveCollectionName_policy[OF demo_md5_digest, of True "''/tmp/p''"
      "''2026-01-02T00:00:00.000Z''" WriteOk demo_migrator]
  unfolding demo_migrator_facts Let_def
  by (auto simp: split_beta)

subsection \<open>Authentication\<close>

lemma split_on_nonempty: "split_on c s \<noteq> []"
  by (induction s) (auto split: list.splits)

lemma split_on_two: "split_on c s = [a, b] \<Longrightarrow> s = a @ c # b"
proof (induction s arbitrary: a)
  case Nil then show ?case by simp
next
  case (Cons x xs)
  show ?case
  proof (cases "x = c")
    case True
    with Cons.prems have "a = []" "split_on c xs = [b]" by auto
    moreover have "xs = b" if "split_on c xs = [b]" for xs b
      using that
    proof (induction xs arbitrary: b)
      case Nil then show ?case by simp
    next
      case (Cons y ys)
      then show ?case using split_on_nonempty[of c ys]
        by (auto split: if_splits list.splits)
    qed
    ultimately show ?thesis using True by simp
  next
    case False
    with Cons.prems obtain w where w: "split_on c xs = [w, b]" "a = x # w"
      using split_on_nonempty[of c xs] by (auto split: list.splits)
    from Cons.IH[OF w(1)] w(2) show ?thesis by simp
  qed
qed

lemma authenticate_accepts:
  assumes "ar_authenticated (authenticate am req)"
  shows "bearer_header (am_token am) (rq_authorization req)"
proof -
  from assms obtain h where h: "rq_authorization req = Some h" "h \<noteq> []"
    by (auto simp: authenticate_def split: option.splits if_splits)
  let ?parts = "split_on (CHR '' '') h"
  from assms h have p: "length ?parts = 2" "map to_lower (?parts ! 0) = ''bearer''"
    "?parts ! 1 = am_token am"
    by (auto simp: authenticate_def Let_def split: if_splits)
  from p(1) obtain a b where ab: "?parts = [a, b]"
    by (cases ?parts; cases "tl ?parts"; auto)
  from split_on_two[OF ab] have hs: "h = a @ CHR '' '' # b" .
  from ab p have "map to_lower a = ''bearer''" "b = am_token am" by simp_all
  with hs h(1) show ?thesis
    by (simp add: bearer_header_def ends_with_def)
qed

lemma authenticate_status:
  "\<not> ar_authenticated (authenticate am req) \<Longrightarrow> ar_statusCode (authenticate am req) = Some 401"
  by (auto simp: authenticate_def Let_def split: option.splits if_splits)

lemma running_config:
  assumes "running ht0 ht"
  shows "ht_authMiddleware ht = ht_authMiddleware ht0
       \<and> rl_excludePaths (ht_rateLimiter ht) = rl_excludePaths (ht_rateLimiter ht0)
       \<and> rl_requestsPerMinute (ht_rateLimiter ht) = rl_requestsPerMinute (ht_rateLimiter ht0)
       \<and> rl_windowMs (ht_rateLimiter ht) = rl_windowMs (ht_rateLimiter ht0)"
  using assms
proof (induction rule: running.induct)
  case run_start show ?case by simp
next
  case (run_request ht now req)
  have "ht_authMiddleware (snd (handle_request ht now req)) = ht_authMiddleware ht
       \<and> rl_excludePaths (ht_rateLimiter (snd (handle_request ht now req))) = rl_excludePaths (ht_rateLimiter ht)
       \<and> rl_requestsPerMinute (ht_rateLimiter (snd (handle_request ht now req))) = rl_requestsPerMinute (ht_rateLimiter ht)
       \<and> rl_windowMs (ht_rateLimiter (snd (handle_request ht now req))) = rl_windowMs (ht_rateLimiter ht)"
    by (auto simp: handle_request_def Let_def check_def split: option.splits prod.splits if_splits)
  with run_request.IH show ?case by simp
next
  case (run_sessions ht n)
  then show ?case by simp
next
  case (run_cleanup ht now)
  then show ?case by (simp add: cleanup_def)
qed

lemma start_http_started:
  assumes "start_http transportMode envToken envRateLimit version startTime = Continue (Some ht0)"
    and "envToken = Some token"
  shows "ht_authMiddleware ht0 = Some \<lparr>am_token = token, am_excludePaths = [''/health'']\<rparr>"
    and "rl_excludePaths (ht_rateLimiter ht0) = [''/health'']"
  using assms
  by (auto simp: start_http_def validateAuthToken_def new_HttpTransport_def new_RateLimiter_def
      split: if_splits)

lemma unauthorized_response:
  assumes am: "ht_authMiddleware ht = Some am" and ex: "rq_pathname req \<notin> set (am_excludePaths am)"
    and m: "rq_method req \<noteq> ''OPTIONS''"
    and na: "\<not> ar_authenticated (authenticate am req)"
  shows "handle_request ht now req = (Responded (handleUnauthorized (cors_headers ht) (authenticate am req)), ht)"
  using assms by (simp add: handle_request_def Let_def requiresAuth_def)

lemma www_authenticate_header:
  "map_of (rsp_headers (handleUnauthorized (cors_headers ht) r)) ''WWW-Authenticate''
     = Some (Text ''Bearer realm=\"MCP Server\"'')"
  by (simp add: handleUnauthorized_def cors_headers_def writeHead_def map_of_js_map_set)

lemma health_response:
  assumes "rq_pathname req = ''/health''" "rq_method req \<noteq> ''OPTIONS''"
    and "\<forall>am. ht_authMiddleware ht = Some am \<longrightarrow> ''/health'' \<in> set (am_excludePaths am)"
    and "''/health'' \<in> set (rl_excludePaths (ht_rateLimiter ht))"
  shows "handle_request ht now req = (Responded (handleHealthCheck ht now (cors_headers ht)), ht)"
  using assms
  by (auto simp: handle_request_def Let_def requiresAuth_def shouldLimit_def route_def
      split: option.splits)

text \<open>
  Claim C7, amended. With the network transport enabled and the secret unset (or blank) the
  process exits with status 2. Once the transport runs, every request other than a CORS
  preflight (method \<^verbatim>\<open>OPTIONS\<close>) to a path other than \<^verbatim>\<open>/health\<close> whose
  \<^verbatim>\<open>Authorization\<close> header is not a bearer scheme, one space and the token, is answered
  401 with \<^verbatim>\<open>WWW-Authenticate: Bearer realm="MCP Server"\<close>; a request to
  \<^verbatim>\<open>/health\<close> gets the health response whatever its \<^verbatim>\<open>Authorization\<close> header.
\<close>

theorem auth_gate:
  assumes mode: "transportMode = Http \<or> transportMode = Both"
  shows "((envToken = None \<or> (\<exists>t. envToken = Some t \<and> js_trim t = [])) \<longrightarrow>
            start_http transportMode envToken envRateLimit version startTime = Exit 2)
       \<and> (\<forall>token ht0 ht.
             envToken = Some token
             \<and> start_http transportMode envToken envRateLimit version startTime = Continue (Some ht0)
             \<and> running ht0 ht \<and> rq_method req \<noteq> ''OPTIONS'' \<longrightarrow>
               (rq_pathname req \<noteq> ''/health'' \<and> \<not> bearer_header token (rq_authorization req) \<longrightarrow>
                  (\<exists>rsp. handle_request ht now req = (Responded rsp, ht)
                      \<and> rsp_status rsp = 401
                      \<and> map_of (rsp_headers rsp) ''WWW-Authenticate''
                            = Some (Text ''Bearer realm=\"MCP Server\"'')))
             \<and> (rq_pathname req = ''/health'' \<longrightarrow>
                  handle_request ht now req
                    = (Responded (handleHealthCheck ht now (cors_headers ht)), ht)))"
proof (intro conjI allI impI)
  assume "envToken = None \<or> (\<exists>t. envToken = Some t \<and> js_trim t = [])"
  with mode show "start_http transportMode envToken envRateLimit version startTime = Exit 2"
    by (auto simp: start_http_def validateAuthToken_def)
next
  fix token ht0 ht
  assume a: "envToken = Some token
             \<and> start_http transportMode envToken envRateLimit version startTime = Continue (Some ht0)
             \<and> running ht0 ht \<and> rq_method req \<noteq> ''OPTIONS''"
  define am where "am = \<lparr>am_token = token, am_excludePaths = [''/health'']\<rparr>"
  from a have st: "start_http transportMode envToken envRateLimit version startTime = Continue (Some ht0)"
    and tk: "envToken = Some token" and run: "running ht0 ht" by blast+
  have ht0: "ht_authMiddleware ht0 = Some am" "rl_excludePaths (ht_rateLimiter ht0) = [''/health'']"
    using start_http_started[OF st tk] by (simp_all add: am_def)
  from running_config[OF run] ht0
  have ht: "ht_authMiddleware ht = Some am" "rl_excludePaths (ht_rateLimiter ht) = [''/health'']"
    by simp_all
  from a have m: "rq_method req \<noteq> ''OPTIONS''" by simp
  {
    assume b: "rq_pathname req \<noteq> ''/health'' \<and> \<not> bearer_header token (rq_authorization req)"
    then have ex: "rq_pathname req \<notin> set (am_excludePaths am)" by (simp add: am_def)
    have na: "\<not> ar_authenticated (authenticate am req)"
      using authenticate_accepts[of am req] b by (auto simp: am_def)
    let ?rsp = "handleUnauthorized (cors_headers ht) (authenticate am req)"
    have "handle_request ht now req = (Responded ?rsp, ht)"
      by (rule unauthorized_response[OF ht(1) ex m na])
    moreover have "rsp_status ?rsp = 401"
      using authenticate_status[OF na] by (simp add: handleUnauthorized_def)
    moreover have "map_of (rsp_headers ?rsp) ''WWW-Authenticate''
                     = Some (Text ''Bearer realm=\"MCP Server\"'')"
      by (rule www_authenticate_header)
    ultimately show "\<exists>rsp. handle_request ht now req = (Responded rsp, ht)
                      \<and> rsp_status rsp = 401
                      \<and> map_of (rsp_headers rsp) ''WWW-Authenticate''
                            = Some (Text ''Bearer realm=\"MCP Server\"'')"
      by blast
  }
  {
    assume h: "rq_pathname req = ''/health''"
    show "handle_request ht now req = (Responded (handleHealthCheck ht now (cors_headers ht)), ht)"
      by (rule health_response[OF h m]) (simp_all add: ht am_def)
  }
qed

lemma demo_transport_started:
  "start_http Http (Some ''tok'') None ''0.1.0'' 0 = Continue (Some demo_transport)"
  by (simp add: start_http_def validateAuthToken_def demo_transport_def js_trim_def js_space_def)

theorem auth_gate_witness:
  "start_http Http None None ''0.1.0'' 0 = Exit 2
   \<and> (\<exists>rsp. handle_request demo_transport 5 (demo_request ''POST'' ''/mcp'' (Some ''Bearer wrong''))
               = (Responded rsp, demo_transport) \<and> rsp_status rsp = 401)
   \<and> (\<exists>rsp. handle_request demo_transport 5 (demo_request ''GET'' ''/health'' None)
               = (Responded rsp, demo_transport) \<and> rsp_status rsp = 200)"
proof -
  have nb: "\<not> bearer_header ''tok'' (Some ''Bearer wrong'')"
    by (simp add: bearer_header_def ends_with_def)
  have r: "running demo_transport demo_transport" by (rule run_start)
  have 1: "start_http Http None None ''0.1.0'' 0 = Exit 2"
    using auth_gate[of Http None None "''0.1.0''" 0] by simp
  note g = auth_gate[of Http "Some ''tok''" None "''0.1.0''" 0, THEN conjunct2, rule_format,
      of "''tok''" demo_transport demo_transport]
  have 2: "\<exists>rsp. handle_request demo_transport 5 (demo_request ''POST'' ''/mcp'' (Some ''Bearer wrong''))
               = (Responded rsp, demo_transport) \<and> rsp_status rsp = 401"
    using g[of "demo_request ''POST'' ''/mcp'' (Some ''Bearer wrong'')" 5, THEN conjunct1]
      demo_transport_started r nb
    by (auto simp: demo_request_def)
  have 3: "\<exists>rsp. handle_request demo_transport 5 (demo_request ''GET'' ''/health'' None)
               = (Responded rsp, demo_transport) \<and> rsp_status rsp = 200"
    using g[of "demo_request ''GET'' ''/health'' None" 5, THEN conjunct2]
      demo_transport_started r
    by (auto simp: demo_request_def handleHealthCheck_def)
  from 1 2 3 show ?thesis by blast
qed

text \<open>
  Claim C7 as stated fails for a preflight: an \<^verbatim>\<open>OPTIONS\<close> request to \<^verbatim>\<open>/mcp\<close>
  without a token is answered 204 before authentication is looked at.
\<close>

theorem auth_gate_counterexample:
  "start_http Http (Some ''tok'') None ''0.1.0'' 0 = Continue (Some demo_transport)
   \<and> rq_pathname (demo_request ''OPTIONS'' ''/mcp'' None) \<noteq> ''/health''
   \<and> \<not> bearer_header ''tok'' (rq_authorization (demo_request ''OPTIONS'' ''/mcp'' None))
   \<and> handle_request demo_transport 5 (demo_request ''OPTIONS'' ''/mcp'' None)
       = (Responded \<lparr>rsp_status = 204, rsp_headers = cors_headers demo_transport, rsp_body = NoBody\<rparr>,
          demo_transport)"
  by (simp add: demo_transport_started demo_request_def bearer_header_def handle_request_def)

subsection \<open>Rate limiting\<close>




































subsection \<open>Snapshot store\<close>

lemma js_map_set_new: "k \<notin> fst ` set m \<Longrightarrow> js_map_set m k v = m @ [(k, v)]"
  by (simp add: js_map_set_def)

lemma push_new_new: "x \<notin> set xs \<Longrightarrow> push_new xs x = xs @ [x]"
  by (simp add: push_new_def)

lemma group_fold:
  assumes "distinct (map fst acc @ map (\<lambda>(p, i). group_key e p) (filter (\<lambda>(p, i). existsSync e p) xs))"
  shows "foldl (group_step e v2) acc xs
           = acc @ map (single_group e) (filter (\<lambda>(p, i). existsSync e p) xs)"
  using assms
proof (induction xs arbitrary: acc)
  case Nil then show ?case by simp
next
  case (Cons x xs)
  obtain p i where x: "x = (p, i)" by (cases x)
  show ?case
  proof (cases "existsSync e p")
    case False
    with Cons x show ?thesis by (simp add: group_step_def)
  next
    case True
    from Cons.prems x True have nk: "group_key e p \<notin> fst ` set acc" by auto
    then have "map_of acc (group_key e p) = None" by (simp add: map_of_eq_None_iff)
    with True x nk have st: "group_step e v2 acc x = acc @ [single_group e x]"
      by (simp add: group_step_def Let_def js_map_set_new single_group_def)
    have d: "distinct (map fst (acc @ [single_group e x])
                @ map (\<lambda>(p, i). group_key e p) (filter (\<lambda>(p, i). existsSync e p) xs))"
      using Cons.prems x True by (auto simp: single_group_def)
    from Cons.IH[OF d] st x True show ?thesis by simp
  qed
qed

lemma view_of_branch:
  "populate_path (branch_of_info i) sm p =
     sm\<lparr>sm_indexedCodebases :=
           (if status_of i = StatusIndexed then push_new (sm_indexedCodebases sm) p
            else sm_indexedCodebases sm),
        sm_indexingCodebases :=
           (case i of InfoIndexing pct t \<Rightarrow> js_map_set (sm_indexingCodebases sm) p pct
            | _ \<Rightarrow> sm_indexingCodebases sm),
        sm_codebaseFileCount :=
           (case i of InfoIndexed f c s t \<Rightarrow> js_map_set (sm_codebaseFileCount sm) p f
            | _ \<Rightarrow> sm_codebaseFileCount sm),
        sm_codebaseInfoMap := js_map_set (sm_codebaseInfoMap sm) p (kept_info i)\<rparr>"
  by (cases i) (simp_all add: populate_path_def branch_of_info_def or_zero_def or_unknown_error_def)

lemma build_single:
  "build_group e now sm (single_group e (p, i)) =
     populate_path (branch_of_info i)
       (sm\<lparr>sm_repositories := js_map_set (sm_repositories sm) (group_key e p) (snd (single_repo e now (p, i))),
           sm_pathToCanonicalId := js_map_set (sm_pathToCanonicalId sm) p (group_key e p)\<rparr>) p"
  by (simp add: build_group_def single_group_def single_repo_def add_repository_def Let_def
      populateLegacyStateFromRepo_def default_branch_def safeResolveIdentity_def)


lemma keys_single_repo: "map fst (map (single_repo e now) xs) = map (\<lambda>(p, i). group_key e p) xs"
  by (induction xs) (auto simp: single_repo_def)

lemma indexed_paths_snoc:
  "indexed_paths (xs @ [(p, i)]) = indexed_paths xs @ (if status_of i = StatusIndexed then [p] else [])"
  by (simp add: indexed_paths_def)

lemma indexing_progress_snoc:
  "indexing_progress (xs @ [(p, i)]) =
     indexing_progress xs @ (case i of InfoIndexing pct t \<Rightarrow> [(p, pct)] | _ \<Rightarrow> [])"
  by (simp add: indexing_progress_def)

lemma indexed_paths_subset: "set (indexed_paths xs) \<subseteq> fst ` set xs"
  by (auto simp: indexed_paths_def)

lemma indexing_progress_subset: "fst ` set (indexing_progress xs) \<subseteq> fst ` set xs"
  by (force simp: indexing_progress_def split: CodebaseInfo.splits)

lemma build_fold:
  assumes "distinct (map (\<lambda>(p, i). group_key e p) xs)"
  shows "sm_repositories (foldl (build_group e now) (clear_state sm) (map (single_group e) xs))
           = map (single_repo e now) xs
       \<and> sm_codebaseInfoMap (foldl (build_group e now) (clear_state sm) (map (single_group e) xs))
           = map (\<lambda>(p, i). (p, kept_info i)) xs
       \<and> sm_indexedCodebases (foldl (build_group e now) (clear_state sm) (map (single_group e) xs))
           = indexed_paths xs
       \<and> sm_indexingCodebases (foldl (build_group e now) (clear_state sm) (map (single_group e) xs))
           = indexing_progress xs
       \<and> sm_file (foldl (build_group e now) (clear_state sm) (map (single_group e) xs)) = sm_file sm
       \<and> sm_writes (foldl (build_group e now) (clear_state sm) (map (single_group e) xs)) = sm_writes sm
       \<and> sm_errors (foldl (build_group e now) (clear_state sm) (map (single_group e) xs)) = sm_errors sm"
  using assms
proof (induction xs rule: rev_induct)
  case Nil
  show ?case by (simp add: clear_state_def indexed_paths_def indexing_progress_def)
next
  case (snoc x xs)
  obtain p i where x: "x = (p, i)" by (cases x)
  define s where "s = foldl (build_group e now) (clear_state sm) (map (single_group e) xs)"
  from snoc.prems have d: "distinct (map (\<lambda>(p, i). group_key e p) xs)"
    and nk: "group_key e p \<notin> (\<lambda>(p, i). group_key e p) ` set xs"
    by (simp_all add: x)
  from nk have np: "p \<notin> fst ` set xs" by force
  note ih = snoc.IH[OF d, folded s_def]
  have r: "sm_repositories s = map (single_repo e now) xs" using ih by simp
  have m: "sm_codebaseInfoMap s = map (\<lambda>(p, i). (p, kept_info i)) xs" using ih by simp
  have a: "sm_indexedCodebases s = indexed_paths xs" using ih by simp
  have b: "sm_indexingCodebases s = indexing_progress xs" using ih by simp
  have f: "sm_file s = sm_file sm" "sm_writes s = sm_writes sm" "sm_errors s = sm_errors sm"
    using ih by simp_all
  have k1: "group_key e p \<notin> fst ` set (sm_repositories s)"
  proof -
    have "fst ` set (sm_repositories s) = set (map fst (map (single_repo e now) xs))"
      by (simp add: r image_image)
    also have "\<dots> = (\<lambda>(p, i). group_key e p) ` set xs" by (simp only: keys_single_repo set_map)
    finally show ?thesis using nk by simp
  qed
  have k2: "p \<notin> fst ` set (sm_codebaseInfoMap s)" using np by (force simp: m)
  have k3: "p \<notin> set (sm_indexedCodebases s)" using np indexed_paths_subset[of xs] by (auto simp: a)
  have k4: "p \<notin> fst ` set (sm_indexingCodebases s)"
    using np indexing_progress_subset[of xs] by (auto simp: b)
  have step: "foldl (build_group e now) (clear_state sm) (map (single_group e) (xs @ [x]))
                = build_group e now s (single_group e (p, i))"
    by (simp add: s_def x)
  have R: "sm_repositories (build_group e now s (single_group e (p, i)))
             = map (single_repo e now) (xs @ [x])"
  proof -
    have "(group_key e p, snd (single_repo e now (p, i))) = single_repo e now (p, i)"
      by (simp add: single_repo_def)
    with k1 show ?thesis
      by (simp add: build_single view_of_branch js_map_set_new r[symmetric] x)
  qed
  have M: "sm_codebaseInfoMap (build_group e now s (single_group e (p, i)))
             = map (\<lambda>(p, i). (p, kept_info i)) (xs @ [x])"
    using k2 by (simp add: build_single view_of_branch js_map_set_new m x)
  have A: "sm_indexedCodebases (build_group e now s (single_group e (p, i))) = indexed_paths (xs @ [x])"
    using k3 by (simp add: build_single view_of_branch push_new_new a x indexed_paths_snoc)
  have B: "sm_indexingCodebases (build_group e now s (single_group e (p, i))) = indexing_progress (xs @ [x])"
    using k4 by (cases i) (simp_all add: build_single view_of_branch js_map_set_new b x indexing_progress_snoc)
  have F: "sm_file (build_group e now s (single_group e (p, i))) = sm_file sm"
    "sm_writes (build_group e now s (single_group e (p, i))) = sm_writes sm"
    "sm_errors (build_group e now s (single_group e (p, i))) = sm_errors sm"
    using f by (simp_all add: build_single view_of_branch)
  show ?case unfolding step using R M A B F by simp
qed


lemma default_branch_single:
  "default_branch (snd (single_repo e now (p, i))) = Some (branch_of_info i)"
  by (simp add: single_repo_def default_branch_def)

lemma indexed_paths_v3_single:
  "indexed_paths_v3 (map (\<lambda>(c, r). (c, RepoOk r)) (map (single_repo e now) xs))
     = Inr (indexed_paths xs)"
proof (induction xs)
  case Nil show ?case by (simp add: indexed_paths_def)
next
  case (Cons x xs)
  obtain p i where x: "x = (p, i)" by (cases x)
  have s: "single_repo e now (p, i) = (group_key e p, snd (single_repo e now (p, i)))"
    by (simp add: single_repo_def)
  have k: "rs_knownPaths (snd (single_repo e now (p, i))) = [p]"
    by (simp add: single_repo_def)
  have b: "bs_status (branch_of_info i) = status_of i" by (simp add: branch_of_info_def)
  have o: "indexed_paths_of (RepoOk (snd (single_repo e now (p, i))))
             = Inr (if status_of i = StatusIndexed then [p] else [])"
    by (simp add: indexed_paths_of_def default_branch_single k b)
  have "indexed_paths_v3 (map (\<lambda>(c, r). (c, RepoOk r)) (map (single_repo e now) ((p, i) # xs)))
          = indexed_paths_v3 ((group_key e p, RepoOk (snd (single_repo e now (p, i))))
                # map (\<lambda>(c, r). (c, RepoOk r)) (map (single_repo e now) xs))"
    using s by (simp add: split_def)
  also have "\<dots> = Inr ((if status_of i = StatusIndexed then [p] else []) @ indexed_paths xs)"
    using Cons.IH by (simp add: o del: map_map)
  also have "\<dots> = Inr (indexed_paths ((p, i) # xs))" by (simp add: indexed_paths_def)
  finally show ?case by (simp only: x)
qed

lemma map_of_kept:
  "map_of (map (\<lambda>(p, i). (p, kept_info i)) xs) k = map_option kept_info (map_of xs k)"
  by (induction xs) auto

lemma map_of_existing:
  "map_of (filter (\<lambda>(p, i). ex p) xs) k = (if ex k then map_of xs k else None)"
  by (induction xs) auto

lemma migrate_views:
  assumes "distinct (map (\<lambda>(p, i). group_key e p) (filter (\<lambda>(p, i). existsSync e p) codebases))"
    and "s = saveCodebaseSnapshot WriteOk
               (buildV3StateFromGroups e now sm (foldl (group_step e v2) [] codebases))"
  shows "sm_file s = Json (V3 (map (\<lambda>(c, r). (c, RepoOk r))
                         (map (single_repo e now) (filter (\<lambda>(p, i). existsSync e p) codebases))))"
    and "sm_writes s = sm_writes sm + 1"
    and "sm_errors s = sm_errors sm"
    and "getIndexedCodebases s = indexed_paths (filter (\<lambda>(p, i). existsSync e p) codebases)"
    and "getIndexingCodebasesWithProgress s
           = indexing_progress (filter (\<lambda>(p, i). existsSync e p) codebases)"
    and "getCodebaseInfo s k = (if existsSync e k then map_option kept_info (map_of codebases k) else None)"
proof -
  let ?xs = "filter (\<lambda>(p, i). existsSync e p) codebases"
  define t where "t = foldl (build_group e now) (clear_state sm) (map (single_group e) ?xs)"
  have g: "foldl (group_step e v2) [] codebases = map (single_group e) ?xs"
    using group_fold[of "[]" e codebases v2] assms(1) by simp
  have s: "s = saveCodebaseSnapshot WriteOk t"
    by (simp add: assms(2) buildV3StateFromGroups_def g t_def)
  note bf = build_fold[OF assms(1), of now sm, folded t_def]
  have r: "sm_repositories t = map (single_repo e now) ?xs" using bf by simp
  have m: "sm_codebaseInfoMap t = map (\<lambda>(p, i). (p, kept_info i)) ?xs" using bf by simp
  have b: "sm_indexingCodebases t = indexing_progress ?xs" using bf by simp
  have f: "sm_writes t = sm_writes sm" "sm_errors t = sm_errors sm" using bf by simp_all
  show fl: "sm_file s = Json (V3 (map (\<lambda>(c, r). (c, RepoOk r)) (map (single_repo e now) ?xs)))"
    by (simp add: s saveCodebaseSnapshot_def r)
  show "sm_writes s = sm_writes sm + 1" by (simp add: s saveCodebaseSnapshot_def f)
  show "sm_errors s = sm_errors sm" by (simp add: s saveCodebaseSnapshot_def f)
  show "getIndexedCodebases s = indexed_paths ?xs"
    unfolding getIndexedCodebases_def fl by (simp del: map_map add: indexed_paths_v3_single)
  show "getIndexingCodebasesWithProgress s = indexing_progress ?xs"
    by (simp add: getIndexingCodebasesWithProgress_def s saveCodebaseSnapshot_def b)
  have "sm_codebaseInfoMap s = map (\<lambda>(p, i). (p, kept_info i)) ?xs"
    by (simp add: s saveCodebaseSnapshot_def m)
  then show "getCodebaseInfo s k = (if existsSync e k then map_option kept_info (map_of codebases k) else None)"
    by (simp add: getCodebaseInfo_def map_of_kept map_of_existing)
qed


lemma existing_keys:
  "map (\<lambda>(p, i). group_key e p) (filter (\<lambda>(p, i). existsSync e p) codebases)
     = map (group_key e) (filter (existsSync e) (map fst codebases))"
  by (induction codebases) auto

lemma existing_indexed_v2:
  "indexed_paths (filter (\<lambda>(p, i). existsSync e p) codebases)
     = filter (existsSync e) (map fst (filter (\<lambda>(p, info). status_of info = StatusIndexed) codebases))"
  by (induction codebases) (auto simp: indexed_paths_def)

lemma existing_indexed_v1:
  "indexed_paths (filter (\<lambda>(p, i). existsSync e p)
       (map (\<lambda>p. (p, InfoIndexed 0 0 Completed now)) paths))
     = filter (existsSync e) paths"
  by (induction paths) (auto simp: indexed_paths_def)

lemma indexing_progress_v1:
  "indexing_progress (filter (\<lambda>(p, i). existsSync e p)
       (map (\<lambda>p. (p, InfoIndexed 0 0 Completed now)) paths)) = []"
  by (induction paths) (auto simp: indexing_progress_def)

text \<open>
  Claim C5, amended. Take a v1 or v2 snapshot in which no two paths that still exist on disk
  resolve to the same canonical repository ID, and let the write succeed. Loading it writes
  the file back once, as a v3 snapshot with one repository per existing path, and logs nothing.
  Afterwards the list of indexed paths is the one of the input restricted to the paths that
  exist. For a v2 input the indexing paths and their progress are those of the input that
  exist, and the information of an existing path is the one of the input except that the
  status of the index reads \<^verbatim>\<open>completed\<close>, the percentage of the last attempt of a failed
  entry is gone and an empty error message reads \<^verbatim>\<open>Unknown error\<close>. For a v1 input no
  path is indexing any more, and every existing indexed path is reported indexed with zero
  files, zero chunks and the time of the load. A path that does not exist has no information.
\<close>

theorem migration_keeps_legacy_views:
  assumes "sm_file sm = Json snapshot"
    and "snapshot = V2 codebases
         \<or> snapshot = V1 paths indexingCodebases
             \<and> codebases = map (\<lambda>p. (p, InfoIndexed 0 0 Completed now)) paths"
    and "distinct (map (group_key e) (filter (existsSync e) (map fst codebases)))"
  shows "sm_writes (loadCodebaseSnapshot e now WriteOk sm) = sm_writes sm + 1
       \<and> sm_errors (loadCodebaseSnapshot e now WriteOk sm) = sm_errors sm
       \<and> sm_file (loadCodebaseSnapshot e now WriteOk sm)
           = Json (V3 (map (\<lambda>(c, r). (c, RepoOk r))
                        (map (single_repo e now) (filter (\<lambda>(p, i). existsSync e p) codebases))))
       \<and> getIndexedCodebases (loadCodebaseSnapshot e now WriteOk sm)
           = filter (existsSync e) (getIndexedCodebases sm)
       \<and> getIndexingCodebasesWithProgress (loadCodebaseSnapshot e now WriteOk sm)
           = indexing_progress (filter (\<lambda>(p, i). existsSync e p) codebases)
       \<and> (snapshot = V1 paths indexingCodebases
            \<longrightarrow> getIndexingCodebasesWithProgress (loadCodebaseSnapshot e now WriteOk sm) = [])
       \<and> (\<forall>k. getCodebaseInfo (loadCodebaseSnapshot e now WriteOk sm) k
                = (if existsSync e k then map_option kept_info (map_of codebases k) else None))"
proof -
  have d: "distinct (map (\<lambda>(p, i). group_key e p) (filter (\<lambda>(p, i). existsSync e p) codebases))"
    using assms(3) by (simp only: existing_keys)
  from assms(2) show ?thesis
  proof
    assume v2: "snapshot = V2 codebases"
    have l: "loadCodebaseSnapshot e now WriteOk sm
               = saveCodebaseSnapshot WriteOk
                   (buildV3StateFromGroups e now sm (foldl (group_step e True) [] codebases))"
      by (simp add: loadCodebaseSnapshot_def assms(1) v2 migrateV2ToV3_def)
    have g: "getIndexedCodebases sm
               = map fst (filter (\<lambda>(p, info). status_of info = StatusIndexed) codebases)"
      by (simp add: getIndexedCodebases_def assms(1) v2)
    note mv = migrate_views[OF d l]
    show ?thesis
      using mv(1) mv(2) mv(3) mv(4) mv(5) mv(6)
      by (simp only: g existing_indexed_v2 simp_thms v2 snapshot_json.distinct)
  next
    assume v1: "snapshot = V1 paths indexingCodebases
                \<and> codebases = map (\<lambda>p. (p, InfoIndexed 0 0 Completed now)) paths"
    then have s: "snapshot = V1 paths indexingCodebases"
      and c: "codebases = map (\<lambda>p. (p, InfoIndexed 0 0 Completed now)) paths"
      by (rule conjunct1, rule conjunct2)
    have l: "loadCodebaseSnapshot e now WriteOk sm
               = saveCodebaseSnapshot WriteOk
                   (buildV3StateFromGroups e now sm (foldl (group_step e False) [] codebases))"
      unfolding c by (simp add: loadCodebaseSnapshot_def assms(1) s migrateV1ToV3_def)
    have g: "getIndexedCodebases sm = paths"
      by (simp add: getIndexedCodebases_def assms(1) s)
    have x: "indexed_paths (filter (\<lambda>(p, i). existsSync e p) codebases) = filter (existsSync e) paths"
      unfolding c by (rule existing_indexed_v1)
    have y: "indexing_progress (filter (\<lambda>(p, i). existsSync e p) codebases) = []"
      unfolding c by (rule indexing_progress_v1)
    note mv = migrate_views[OF d l]
    show ?thesis
      using mv(1) mv(2) mv(3) mv(4) mv(5) mv(6)
      by (simp only: g x y simp_thms)
  qed
qed

lemma demo_v2_file: "sm_file (new_SnapshotManager demo_v2) = Json (V2 demo_codebases)"
  by (simp add: new_SnapshotManager_def demo_v2_def)

lemma demo_v2_keys:
  "distinct (map (group_key demo_env) (filter (existsSync demo_env) (map fst demo_codebases)))"
  by code_simp

lemma demo_v2_views:
  "filter (existsSync demo_env) (getIndexedCodebases (new_SnapshotManager demo_v2)) = [''/tmp/p'']"
  "indexing_progress (filter (\<lambda>(p, i). existsSync demo_env p) demo_codebases) = [(''/d'', 40)]"
  "(if existsSync demo_env ''/b'' then map_option kept_info (map_of demo_codebases ''/b'') else None)
     = Some (InfoIndexFailed ''boom'' None ''2026-01-03'')"
  "(if existsSync demo_env ''/gone'' then map_option kept_info (map_of demo_codebases ''/gone'') else None)
     = None"
  "sm_writes (new_SnapshotManager demo_v2) + 1 = 1"
  by code_simp+

theorem migration_keeps_legacy_views_witness:
  "sm_file (new_SnapshotManager demo_v2) = Json (V2 demo_codebases)
   \<and> distinct (map (group_key demo_env) (filter (existsSync demo_env) (map fst demo_codebases)))
   \<and> sm_writes (loadCodebaseSnapshot demo_env ''NOW'' WriteOk (new_SnapshotManager demo_v2)) = 1
   \<and> getIndexedCodebases (loadCodebaseSnapshot demo_env ''NOW'' WriteOk (new_SnapshotManager demo_v2))
       = [''/tmp/p'']
   \<and> getIndexingCodebasesWithProgress
         (loadCodebaseSnapshot demo_env ''NOW'' WriteOk (new_SnapshotManager demo_v2)) = [(''/d'', 40)]
   \<and> getCodebaseInfo (loadCodebaseSnapshot demo_env ''NOW'' WriteOk (new_SnapshotManager demo_v2)) ''/b''
       = Some (InfoIndexFailed ''boom'' None ''2026-01-03'')
   \<and> getCodebaseInfo (loadCodebaseSnapshot demo_env ''NOW'' WriteOk (new_SnapshotManager demo_v2)) ''/gone''
       = None"
proof -
  have c: "V2 demo_codebases = V2 demo_codebases
           \<or> V2 demo_codebases = V1 [] IndexingAbsent
               \<and> demo_codebases = map (\<lambda>p. (p, InfoIndexed 0 0 Completed ''NOW'')) []"
    by simp
  note t = migration_keeps_legacy_views[OF demo_v2_file c demo_v2_keys]
  have w: "sm_writes (loadCodebaseSnapshot demo_env ''NOW'' WriteOk (new_SnapshotManager demo_v2)) = 1"
    using t[THEN conjunct1] by (simp only: demo_v2_views)
  have a: "getIndexedCodebases (loadCodebaseSnapshot demo_env ''NOW'' WriteOk (new_SnapshotManager demo_v2))
             = [''/tmp/p'']"
    using t[THEN conjunct2, THEN conjunct2, THEN conjunct2, THEN conjunct1]
    by (simp only: demo_v2_views)
  have b: "getIndexingCodebasesWithProgress
             (loadCodebaseSnapshot demo_env ''NOW'' WriteOk (new_SnapshotManager demo_v2)) = [(''/d'', 40)]"
    using t[THEN conjunct2, THEN conjunct2, THEN conjunct2, THEN conjunct2, THEN conjunct1]
    by (simp only: demo_v2_views)
  note i = t[THEN conjunct2, THEN conjunct2, THEN conjunct2, THEN conjunct2, THEN conjunct2,
             THEN conjunct2, rule_format]
  have f: "getCodebaseInfo (loadCodebaseSnapshot demo_env ''NOW'' WriteOk (new_SnapshotManager demo_v2)) ''/b''
             = Some (InfoIndexFailed ''boom'' None ''2026-01-03'')"
    using i[of "''/b''"] by (simp only: demo_v2_views)
  have g: "getCodebaseInfo (loadCodebaseSnapshot demo_env ''NOW'' WriteOk (new_SnapshotManager demo_v2)) ''/gone''
             = None"
    using i[of "''/gone''"] by (simp only: demo_v2_views)
  from demo_v2_file demo_v2_keys w a b f g show ?thesis by (intro conjI)
qed

text \<open>
  Claim C5 as stated fails in two ways on paths that all exist. A main checkout that is
  indexed and a worktree of it that is being indexed become one repository, and the worktree
  is then reported indexed with the numbers of the main checkout. An index that stopped at
  the limit is reported completed.
\<close>

theorem migration_keeps_legacy_views_counterexample:
  "existsSync demo_env ''/a/main'' \<and> existsSync demo_env ''/a/feat''
   \<and> sm_file (new_SnapshotManager demo_v2_merged)
       = Json (V2 [(''/a/main'', InfoIndexed 10 50 Completed ''2026-01-01''),
                   (''/a/feat'', InfoIndexing 40 ''2026-01-02'')])
   \<and> getIndexedCodebases (new_SnapshotManager demo_v2_merged) = [''/a/main'']
   \<and> getIndexedCodebases (loadCodebaseSnapshot demo_env ''NOW'' WriteOk (new_SnapshotManager demo_v2_merged))
       = [''/a/main'', ''/a/feat'']
   \<and> getIndexingCodebasesWithProgress
         (loadCodebaseSnapshot demo_env ''NOW'' WriteOk (new_SnapshotManager demo_v2_merged)) = []
   \<and> getCodebaseInfo (loadCodebaseSnapshot demo_env ''NOW'' WriteOk (new_SnapshotManager demo_v2_merged)) ''/a/feat''
       = Some (InfoIndexed 10 50 Completed ''2026-01-01'')
   \<and> existsSync demo_env ''/tmp/p''
   \<and> sm_file (new_SnapshotManager demo_v2_limit)
       = Json (V2 [(''/tmp/p'', InfoIndexed 10 50 LimitReached ''2026-01-01'')])
   \<and> getCodebaseInfo (loadCodebaseSnapshot demo_env ''NOW'' WriteOk (new_SnapshotManager demo_v2_limit)) ''/tmp/p''
       = Some (InfoIndexed 10 50 Completed ''2026-01-01'')"
  by code_simp

text \<open>
  A file that is not JSON leaves a new manager empty, and the error is logged.
\<close>

lemma load_invalid_json:
  "loadCodebaseSnapshot e now outcome (new_SnapshotManager InvalidJson)
     = (new_SnapshotManager InvalidJson)\<lparr>sm_errors := [''Error loading snapshot'']\<rparr>"
  by (simp add: loadCodebaseSnapshot_def new_SnapshotManager_def)

text \<open>
  Claim C6 at a file that is corrupt only in part: a v3 snapshot whose first repository is
  sound, with a path that exists, and whose second repository has no \<^verbatim>\<open>knownPaths\<close>. The
  load logs the error and returns, but the first repository stays in the state: the manager
  does not start empty.
\<close>

theorem load_partly_corrupt_snapshot:
  "sm_errors (loadCodebaseSnapshot demo_env ''NOW'' WriteOk (new_SnapshotManager demo_v3_partly_corrupt))
     = [''Error loading snapshot'']
   \<and> sm_repositories (loadCodebaseSnapshot demo_env ''NOW'' WriteOk (new_SnapshotManager demo_v3_partly_corrupt))
     = [(''id-a'', demo_repo)]
   \<and> getIndexedCodebases (loadCodebaseSnapshot demo_env ''NOW'' WriteOk (new_SnapshotManager demo_v3_partly_corrupt))
     = [''/tmp/p'']
   \<and> getCodebaseInfo (loadCodebaseSnapshot demo_env ''NOW'' WriteOk (new_SnapshotManager demo_v3_partly_corrupt)) ''/tmp/p''
     = Some (InfoIndexed 1 1 Completed ''2026-01-01'')"
  by code_simp

end
